theory Spec2Isabelle
  imports Main "HOL-Library.AList"
begin

section \<open>The production Steem WebSocket bridge\<close>

text \<open>
  A shallow embedding of the class \<open>ProductionSteemBridge\<close>: its fields are a record,
  each method is a function from state to state, and each \<open>await\<close> is a point where
  the method stops and leaves a continuation behind, which the event that settles the
  awaited promise resumes. Time is the value of \<open>Date.now()\<close>, an integer number of
  milliseconds, passed to every handler.
\<close>

subsection \<open>JavaScript values\<close>

text \<open>
  What \<open>JSON.parse\<close> returns, together with \<open>undefined\<close>, which a read of a missing
  property gives. Numbers are integers here (block heights and times).
\<close>

datatype jsval =
    JUndefined
  | JNull
  | JBool bool
  | JNum int
  | JStr string
  | JArr "jsval list"
  | JObj "(string \<times> jsval) list"

text \<open>The test of \<open>if (v)\<close> and of \<open>a && b\<close>.\<close>

fun truthy :: "jsval \<Rightarrow> bool" where
  "truthy JUndefined = False"
| "truthy JNull = False"
| "truthy (JBool b) = b"
| "truthy (JNum n) = (n \<noteq> 0)"
| "truthy (JStr s) = (s \<noteq> [])"
| "truthy (JArr xs) = True"
| "truthy (JObj fs) = True"

text \<open>
  The property read \<open>v.name\<close> for the names the bridge reads (\<open>result\<close>, \<open>error\<close>,
  \<open>message\<close>, \<open>head_block_number\<close>): \<open>None\<close> is the TypeError of a read on \<open>null\<close>
  or \<open>undefined\<close>; an object gives its own field, everything else \<open>undefined\<close>.
\<close>

fun js_prop :: "jsval \<Rightarrow> string \<Rightarrow> jsval option" where
  "js_prop JUndefined k = None"
| "js_prop JNull k = None"
| "js_prop (JObj fs) k = (case map_of fs k of Some v \<Rightarrow> Some v | None \<Rightarrow> Some JUndefined)"
| "js_prop v k = Some JUndefined"

text \<open>
  The conversion to a string that a property key and a template literal apply to a
  value; \<open>None\<close> is the TypeError of an object that has a property \<open>toString\<close> of
  its own (what was parsed from JSON cannot be called, and \<open>valueOf\<close> gives no
  primitive). An array is its elements joined by commas, \<open>null\<close> and \<open>undefined\<close>
  among them as the empty string.
\<close>

fun digits :: "nat \<Rightarrow> string" where
  "digits n = (if n < 10 then [''0123456789'' ! n]
               else digits (n div 10) @ [''0123456789'' ! (n mod 10)])"

declare digits.simps [simp del]

definition number_string :: "int \<Rightarrow> string" where
  "number_string n = (if n < 0 then CHR ''-'' # digits (nat (- n)) else digits (nat n))"

fun join :: "string list \<Rightarrow> string" where
  "join [] = []"
| "join [s] = s"
| "join (s # ss) = s @ CHR '','' # join ss"

fun to_string :: "jsval \<Rightarrow> string option"
  and elements :: "jsval list \<Rightarrow> string list option" where
  "to_string JUndefined = Some ''undefined''"
| "to_string JNull = Some ''null''"
| "to_string (JBool b) = Some (if b then ''true'' else ''false'')"
| "to_string (JNum n) = Some (number_string n)"
| "to_string (JStr s) = Some s"
| "to_string (JArr xs) = map_option join (elements xs)"
| "to_string (JObj fs) =
     (if map_of fs ''toString'' = None then Some ''[object Object]'' else None)"
| "elements [] = Some []"
| "elements (x # xs) =
     (case (if x = JNull \<or> x = JUndefined then Some [] else to_string x) of
        None \<Rightarrow> None
      | Some s \<Rightarrow> (case elements xs of None \<Rightarrow> None | Some ss \<Rightarrow> Some (s # ss)))"

text \<open>
  A stream name as the bridge holds it: whatever \<open>data.stream\<close> was. A primitive is
  its value. An array or an object also has an identity, new with every parsed
  message, and \<open>Map\<close> compares keys that are objects by identity; \<open>===\<close> with a
  string holds for that string only.
\<close>

datatype sname = Val jsval | Ref nat jsval

fun val_of :: "sname \<Rightarrow> jsval" where
  "val_of (Val v) = v"
| "val_of (Ref i v) = v"

definition key_of :: "sname \<Rightarrow> string option" where
  "key_of n = to_string (val_of n)"

definition name_of :: "jsval \<Rightarrow> nat \<Rightarrow> sname" where
  "name_of v i = (case v of JArr xs \<Rightarrow> Ref i v | JObj fs \<Rightarrow> Ref i v | _ \<Rightarrow> Val v)"

text \<open>
  A read \<open>obj[key]\<close> on an object literal finds the object's own property, or else a
  property of \<open>Object.prototype\<close>, or else \<open>undefined\<close>. The inherited values are
  functions (and \<open>Object.prototype\<close> itself for \<open>__proto__\<close>): all truthy, none with
  a property the bridge reads.
\<close>

datatype 'a lookup = Own 'a | Inherited | Missing

definition object_prototype_keys :: "string list" where
  "object_prototype_keys =
     [''constructor'', ''__defineGetter__'', ''__defineSetter__'', ''hasOwnProperty'',
      ''__lookupGetter__'', ''__lookupSetter__'', ''isPrototypeOf'',
      ''propertyIsEnumerable'', ''toString'', ''valueOf'', ''__proto__'',
      ''toLocaleString'']"

definition js_lookup :: "(string \<rightharpoonup> 'a) \<Rightarrow> string \<Rightarrow> 'a lookup" where
  "js_lookup obj k =
     (case obj k of
        Some v \<Rightarrow> Own v
      | None \<Rightarrow> if k \<in> set object_prototype_keys then Inherited else Missing)"

subsection \<open>The stream catalogue\<close>

datatype processor = ProcessDynamicGlobalProperties | ProcessBlockHeader | ProcessBlock

text \<open>
  An entry of \<open>apiMethods\<close>. Every field is optional because \<open>startStream\<close> copies
  whatever the lookup found: the copy of an inherited function has no field at all.
\<close>

record stream_config =
  "method" :: "string option"
  params :: "jsval list option"
  interval :: "int option"
  processor :: "processor option"

definition apiMethods :: "string \<rightharpoonup> stream_config" where
  "apiMethods =
     [''dynamic_global_properties'' \<mapsto>
        \<lparr>method = Some ''condenser_api.get_dynamic_global_properties'',
         params = Some [], interval = Some 8000,
         processor = Some ProcessDynamicGlobalProperties\<rparr>,
      ''block_header'' \<mapsto>
        \<lparr>method = Some ''condenser_api.get_block_header'',
         params = Some [JNull], interval = Some 6000,
         processor = Some ProcessBlockHeader\<rparr>,
      ''block'' \<mapsto>
        \<lparr>method = Some ''condenser_api.get_block'',
         params = Some [JNull], interval = Some 12000,
         processor = Some ProcessBlock\<rparr>]"

text \<open>The spread \<open>{ ...this.apiMethods[streamName] }\<close> of a truthy lookup.\<close>

definition empty_config :: stream_config where
  "empty_config = \<lparr>method = None, params = None, interval = None, processor = None\<rparr>"

fun spread :: "stream_config lookup \<Rightarrow> stream_config" where
  "spread (Own c) = c"
| "spread Inherited = empty_config"
| "spread Missing = empty_config"

subsection \<open>Messages, requests and the state\<close>

text \<open>The value an upstream call is rejected with, and the promise's two outcomes.\<close>

datatype js_error =
    TransportError string
  | TimeoutError
  | JsonSyntaxError
  | TypeError
  | ApiError jsval

datatype outcome = Resolved jsval | Rejected js_error

text \<open>
  What the bridge sends to a socket. The last argument of the stream messages is the
  time of sending (\<open>new Date()\<close>).
\<close>

datatype message =
    Welcome jsval int
  | InvalidJson
  | UnknownType string
  | UnknownStream string
  | StreamStarted jsval "int option"
  | StreamStopped jsval nat
  | LiveData jsval jsval bool "int option" int
  | StreamError jsval jsval int
  | FetchError jsval js_error int
  | CurrentBlock jsval int
  | ApiStats nat nat nat int

text \<open>The field \<open>type\<close> of each message.\<close>

fun msg_type :: "message \<Rightarrow> string" where
  "msg_type (Welcome b t) = ''welcome''"
| "msg_type InvalidJson = ''error''"
| "msg_type (UnknownType ty) = ''error''"
| "msg_type (UnknownStream s) = ''error''"
| "msg_type (StreamStarted s i) = ''stream_started''"
| "msg_type (StreamStopped s n) = ''stream_stopped''"
| "msg_type (LiveData s d c a t) = ''live_data''"
| "msg_type (StreamError s e t) = ''error''"
| "msg_type (FetchError s e t) = ''fetch_error''"
| "msg_type (CurrentBlock b t) = ''current_block''"
| "msg_type (ApiStats r a c t) = ''api_stats''"

text \<open>
  The code after an \<open>await this.queueAPICall(...)\<close>, by the place of the \<open>await\<close>:
  in \<open>fetchAndBroadcastOptimized\<close> the call that seeds \<open>currentBlock\<close> and the
  stream's own call (both keep the stream name, the reference to \<open>config\<close> and the
  \<open>now\<close> read at the start of the method), in \<open>testSteemConnection\<close>, and in the timer
  of \<open>startAutomaticDataFetch\<close>.
\<close>

datatype cont =
    KSeed sname nat int
  | KFetch sname nat int
  | KTest
  | KAuto

record request =
  r_method :: "string option"
  r_params :: "jsval list option"
  r_cont :: cont

record cache_entry =
  data :: jsval
  timestamp :: int
  ttl :: "int option"

text \<open>
  An entry of \<open>activeStreams\<close>. \<open>config\<close> is a reference: the object is shared with
  the timer's closure and lives in the store \<open>configs\<close> of the state.
\<close>

record stream_state =
  intervalId :: nat
  config :: nat
  startTime :: int
  streamRequestCount :: nat

datatype ready_state = CONNECTING | OPEN | CLOSING | CLOSED

text \<open>A timer of \<open>setInterval\<close> for a stream: its stream, its delay, when it is next due.\<close>

record timer =
  t_stream :: sname
  t_delay :: int
  t_due :: int

text \<open>
  Where the one run of \<open>processRequestQueue\<close> stands: waiting for its next poll,
  waiting for the spacing delay before a call, waiting for the call to settle (with the
  time the call was made), or waiting 200 ms after a call.
\<close>

datatype worker =
    Polling int
  | Sleeping request int
  | Calling request int
  | Pausing int

record bridge =
  clients :: "nat list"
  currentBlock :: jsval
  activeStreams :: "(sname \<times> stream_state) list"
  requestCount :: nat
  lastRequestTime :: int
  requestQueue :: "request list"
  isProcessingQueue :: bool
  cache :: "string \<rightharpoonup> cache_entry"
  readyState :: "nat \<Rightarrow> ready_state"
  timers :: "nat \<rightharpoonup> timer"
  nextTimer :: nat
  nextObject :: nat
  configs :: "nat \<Rightarrow> stream_config"
  worker :: worker
  testDue :: "int option"
  autoDue :: "int option"
  resetDue :: int
  clock :: int
  outbox :: "(nat \<times> message) list"
  calls :: "(int \<times> string option \<times> jsval list option) list"

definition requestDelay :: int where
  "requestDelay = 1000"

definition maxRequestsPerMinute :: nat where
  "maxRequestsPerMinute = 60"

text \<open>
  The state the constructor leaves at time \<open>t0\<close>: \<open>setupRequestManagement\<close> has
  started the counter's 60 s timer and run \<open>processRequestQueue\<close> once on the empty
  queue, \<open>initializeConnection\<close> has set the 3 s timer of the connection test.
\<close>

definition init :: "int \<Rightarrow> bridge" where
  "init t0 =
     \<lparr>clients = [], currentBlock = JNum 0, activeStreams = [], requestCount = 0,
      lastRequestTime = 0, requestQueue = [], isProcessingQueue = False,
      cache =
        [''dynamic_global_properties'' \<mapsto> \<lparr>data = JNull, timestamp = 0, ttl = Some 5000\<rparr>,
         ''block_header'' \<mapsto> \<lparr>data = JNull, timestamp = 0, ttl = Some 3000\<rparr>,
         ''block'' \<mapsto> \<lparr>data = JNull, timestamp = 0, ttl = Some 5000\<rparr>],
      readyState = (\<lambda>ws. CONNECTING), timers = Map.empty, nextTimer = 0,
      nextObject = 0,
      configs = (\<lambda>r. empty_config), worker = Polling (t0 + 1000),
      testDue = Some (t0 + 3000), autoDue = None, resetDue = t0 + 60000,
      clock = t0, outbox = [], calls = []\<rparr>"

subsection \<open>Sending and queueing\<close>

text \<open>\<open>ws.send(JSON.stringify(m))\<close>: the outbox records every send, in order.\<close>

definition send :: "nat \<Rightarrow> message \<Rightarrow> bridge \<Rightarrow> bridge" where
  "send ws m st = st\<lparr>outbox := outbox st @ [(ws, m)]\<rparr>"

definition broadcast :: "message \<Rightarrow> bridge \<Rightarrow> bridge" where
  "broadcast m st =
     (if clients st = [] then st
      else st\<lparr>outbox := outbox st @
             map (\<lambda>ws. (ws, m)) (filter (\<lambda>ws. readyState st ws = OPEN) (clients st))\<rparr>)"

definition queueAPICall :: "string option \<Rightarrow> jsval list option \<Rightarrow> cont \<Rightarrow> bridge \<Rightarrow> bridge" where
  "queueAPICall m p k st =
     st\<lparr>requestQueue := requestQueue st @ [\<lparr>r_method = m, r_params = p, r_cont = k\<rparr>]\<rparr>"

subsection \<open>fetchAndBroadcastOptimized\<close>

text \<open>The \<open>catch\<close> block of the method, at time \<open>t\<close>.\<close>

definition fetch_catch :: "sname \<Rightarrow> js_error \<Rightarrow> int \<Rightarrow> bridge \<Rightarrow> bridge" where
  "fetch_catch streamName e t st = broadcast (FetchError (val_of streamName) e t) st"

text \<open>
  From \<open>config.params = [this.currentBlock]\<close> (for the two block streams) to the
  \<open>await\<close> of the stream's own call. \<open>cfg\<close> is the reference to \<open>config\<close>.
\<close>

definition fetch_call :: "sname \<Rightarrow> nat \<Rightarrow> int \<Rightarrow> bridge \<Rightarrow> bridge" where
  "fetch_call streamName cfg now st =
     (let st1 =
        (if streamName = Val (JStr ''block_header'') \<or> streamName = Val (JStr ''block'')
         then st\<lparr>configs := (configs st)(cfg := (configs st cfg)\<lparr>params := Some [currentBlock st]\<rparr>)\<rparr>
         else st)
      in queueAPICall (method (configs st1 cfg)) (params (configs st1 cfg))
           (KFetch streamName cfg now) st1)"

text \<open>The path after the cache check failed, up to the first \<open>await\<close>.\<close>

definition fetch_fresh :: "sname \<Rightarrow> nat \<Rightarrow> int \<Rightarrow> bridge \<Rightarrow> bridge" where
  "fetch_fresh streamName cfg now st =
     (if (streamName = Val (JStr ''block_header'') \<or> streamName = Val (JStr ''block'')) \<and>
         currentBlock st = JNum 0
      then queueAPICall (Some ''condenser_api.get_dynamic_global_properties'') (Some [])
             (KSeed streamName cfg now) st
      else fetch_call streamName cfg now st)"

text \<open>
  The method from its start, at \<open>Date.now() = now\<close>, to its first \<open>await\<close> or its
  return; \<open>fresh\<close> is its test \<open>cached.data && (now - cached.timestamp) < cached.ttl\<close>
  (a comparison with an undefined \<open>ttl\<close> is false). A name with no cache entry at all
  makes \<open>cached.data\<close> throw, into the \<open>catch\<close>; for an inherited name
  \<open>cached.data\<close> is \<open>undefined\<close>. The cache is indexed by the name as a property key.
\<close>

definition fresh :: "cache_entry \<Rightarrow> int \<Rightarrow> bool" where
  "fresh cached now =
     (truthy (data cached) \<and>
      (case ttl cached of None \<Rightarrow> False | Some l \<Rightarrow> now - timestamp cached < l))"

definition fetchAndBroadcastOptimized :: "sname \<Rightarrow> nat \<Rightarrow> int \<Rightarrow> bridge \<Rightarrow> bridge" where
  "fetchAndBroadcastOptimized streamName cfg now st =
     (case key_of streamName of
        None \<Rightarrow> fetch_catch streamName TypeError now st
      | Some k \<Rightarrow>
          (case js_lookup (cache st) k of
             Missing \<Rightarrow> fetch_catch streamName TypeError now st
           | Inherited \<Rightarrow> fetch_fresh streamName cfg now st
           | Own cached \<Rightarrow>
               if fresh cached now
               then broadcast
                      (LiveData (val_of streamName) (data cached) True
                         (Some (now - timestamp cached)) now) st
               else fetch_fresh streamName cfg now st))"

text \<open>
  The three processors return their argument; the first also stores the block height.
  The argument is truthy, so the property read cannot throw.
\<close>

fun run_processor :: "processor \<Rightarrow> jsval \<Rightarrow> bridge \<Rightarrow> jsval \<times> bridge" where
  "run_processor ProcessDynamicGlobalProperties r st =
     (r, st\<lparr>currentBlock := (case js_prop r ''head_block_number'' of
                                 Some b \<Rightarrow> b | None \<Rightarrow> JUndefined)\<rparr>)"
| "run_processor ProcessBlockHeader r st = (r, st)"
| "run_processor ProcessBlock r st = (r, st)"

text \<open>
  \<open>this.cache[streamName] = {data, timestamp: now, ttl: this.cache[streamName].ttl}\<close>:
  \<open>None\<close> when the read of \<open>ttl\<close> throws (no entry, own or inherited). For an
  inherited name the assignment makes an own entry with an undefined \<open>ttl\<close> (for
  \<open>__proto__\<close> it would replace the prototype instead); no run gets there, because
  the \<open>config\<close> of a stream with an inherited name has no processor.
\<close>

definition cache_write :: "sname \<Rightarrow> jsval \<Rightarrow> int \<Rightarrow> bridge \<Rightarrow> bridge option" where
  "cache_write streamName d now st =
     (case key_of streamName of
        None \<Rightarrow> None
      | Some k \<Rightarrow>
          (case js_lookup (cache st) k of
             Missing \<Rightarrow> None
           | Inherited \<Rightarrow>
               Some (st\<lparr>cache := (cache st)(k \<mapsto> \<lparr>data = d, timestamp = now, ttl = None\<rparr>)\<rparr>)
           | Own old \<Rightarrow>
               Some (st\<lparr>cache := (cache st)(k \<mapsto>
                                     \<lparr>data = d, timestamp = now, ttl = ttl old\<rparr>)\<rparr>)))"

text \<open>\<open>if (this.activeStreams.has(streamName)) this.activeStreams.get(streamName).requestCount++\<close>\<close>

definition track_request :: "sname \<Rightarrow> bridge \<Rightarrow> bridge" where
  "track_request streamName st =
     (case map_of (activeStreams st) streamName of
        None \<Rightarrow> st
      | Some s \<Rightarrow>
          st\<lparr>activeStreams := AList.update streamName
                (s\<lparr>streamRequestCount := streamRequestCount s + 1\<rparr>) (activeStreams st)\<rparr>)"

text \<open>
  The method after its stream's own call has resolved with \<open>response\<close>, at time \<open>t\<close>;
  \<open>now\<close> is still the time read when the method started.
\<close>

definition fetch_done :: "sname \<Rightarrow> nat \<Rightarrow> int \<Rightarrow> jsval \<Rightarrow> int \<Rightarrow> bridge \<Rightarrow> bridge" where
  "fetch_done streamName cfg now response t st =
     (case js_prop response ''result'' of
        None \<Rightarrow> fetch_catch streamName TypeError t st
      | Some r \<Rightarrow>
          if truthy r then
            (case processor (configs st cfg) of
               None \<Rightarrow> fetch_catch streamName TypeError t st
             | Some p \<Rightarrow>
                 (case run_processor p r st of (processedData, st1) \<Rightarrow>
                    (case cache_write streamName processedData now st1 of
                       None \<Rightarrow> fetch_catch streamName TypeError t st1
                     | Some st2 \<Rightarrow>
                         broadcast (LiveData (val_of streamName) processedData False None t)
                           (track_request streamName st2))))
          else
            (case js_prop response ''error'' of
               None \<Rightarrow> fetch_catch streamName TypeError t st
             | Some e \<Rightarrow>
                 if truthy e
                 then broadcast
                        (StreamError (val_of streamName)
                           (case js_prop e ''message'' of Some m \<Rightarrow> m | None \<Rightarrow> JUndefined) t) st
                 else st))"

text \<open>The method after the seeding call has resolved with \<open>globalProps\<close>.\<close>

definition fetch_seeded :: "sname \<Rightarrow> nat \<Rightarrow> int \<Rightarrow> jsval \<Rightarrow> int \<Rightarrow> bridge \<Rightarrow> bridge" where
  "fetch_seeded streamName cfg now globalProps t st =
     (case js_prop globalProps ''result'' of
        None \<Rightarrow> fetch_catch streamName TypeError t st
      | Some r \<Rightarrow>
          fetch_call streamName cfg now
            (if truthy r
             then st\<lparr>currentBlock := (case js_prop r ''head_block_number'' of
                                        Some b \<Rightarrow> b | None \<Rightarrow> JUndefined)\<rparr>
             else st))"

subsection \<open>The connection test and the automatic fetch\<close>

text \<open>\<open>testSteemConnection\<close> after its call has settled, at time \<open>t\<close>.\<close>

definition test_done :: "outcome \<Rightarrow> int \<Rightarrow> bridge \<Rightarrow> bridge" where
  "test_done r t st =
     (case r of
        Rejected e \<Rightarrow> st\<lparr>testDue := Some (t + 30000)\<rparr>
      | Resolved testCall \<Rightarrow>
          (case js_prop testCall ''result'' of
             None \<Rightarrow> st
           | Some res \<Rightarrow>
               (case js_prop res ''head_block_number'' of
                  None \<Rightarrow> st
                | Some b \<Rightarrow>
                    if truthy res \<and> truthy b
                    then st\<lparr>currentBlock := b, autoDue := Some (t + 10000)\<rparr>
                    else st)))"

text \<open>The timer callback of \<open>startAutomaticDataFetch\<close> after its call has settled.\<close>

definition auto_done :: "outcome \<Rightarrow> bridge \<Rightarrow> bridge" where
  "auto_done r st =
     (case r of
        Rejected e \<Rightarrow> st
      | Resolved response \<Rightarrow>
          (case js_prop response ''result'' of
             None \<Rightarrow> st
           | Some res \<Rightarrow>
               if truthy res
               then st\<lparr>currentBlock := (case js_prop res ''head_block_number'' of
                                          Some b \<Rightarrow> b | None \<Rightarrow> JUndefined)\<rparr>
               else st))"

text \<open>
  Settling the promise of a queued request runs the code that awaits it. A rejection
  inside \<open>fetchAndBroadcastOptimized\<close> lands in its \<open>catch\<close>.
\<close>

fun resume :: "cont \<Rightarrow> outcome \<Rightarrow> int \<Rightarrow> bridge \<Rightarrow> bridge" where
  "resume (KSeed streamName cfg now) (Resolved v) t st = fetch_seeded streamName cfg now v t st"
| "resume (KSeed streamName cfg now) (Rejected e) t st = fetch_catch streamName e t st"
| "resume (KFetch streamName cfg now) (Resolved v) t st = fetch_done streamName cfg now v t st"
| "resume (KFetch streamName cfg now) (Rejected e) t st = fetch_catch streamName e t st"
| "resume KTest r t st = test_done r t st"
| "resume KAuto r t st = auto_done r st"

subsection \<open>Starting and stopping streams\<close>

text \<open>\<open>setInterval(f, d)\<close> with \<open>d\<close> undefined runs every millisecond.\<close>

definition timer_delay :: "int option \<Rightarrow> int" where
  "timer_delay d = (case d of None \<Rightarrow> 1 | Some i \<Rightarrow> if i < 1 then 1 else i)"

text \<open>
  \<open>startStream\<close> at time \<open>now\<close>; \<open>None\<close> is the TypeError of a name that is no
  property key, thrown by the first line. The catalogue is indexed by the name as a
  property key, \<open>activeStreams\<close> (a \<open>Map\<close>) by the name itself. The new timer and the
  copy of the catalogue entry that its callback keeps get the same fresh index. The
  first call of \<open>fetchAndBroadcastOptimized\<close> runs to its first \<open>await\<close> before the
  acknowledgement is sent.
\<close>

definition start_known :: "sname \<Rightarrow> stream_config \<Rightarrow> nat \<Rightarrow> int \<Rightarrow> bridge \<Rightarrow> bridge" where
  "start_known streamName cfg requestingClient now st =
          (let
               st1 =
                 (if map_of (activeStreams st) streamName = None
                  then
                    (let i = nextTimer st;
                         st' = st\<lparr>nextTimer := i + 1,
                                  configs := (configs st)(i := cfg),
                                  timers := (timers st)(i \<mapsto>
                                    \<lparr>t_stream = streamName,
                                     t_delay = timer_delay (interval cfg),
                                     t_due = now + timer_delay (interval cfg)\<rparr>),
                                  activeStreams := AList.update streamName
                                    \<lparr>intervalId = i, config = i, startTime = now,
                                     streamRequestCount = 0\<rparr> (activeStreams st)\<rparr>
                     in fetchAndBroadcastOptimized streamName i now st')
                  else st)
           in send requestingClient (StreamStarted (val_of streamName) (interval cfg)) st1)"

definition startStream :: "sname \<Rightarrow> nat \<Rightarrow> int \<Rightarrow> bridge \<Rightarrow> bridge option" where
  "startStream streamName requestingClient now st =
     (case key_of streamName of
        None \<Rightarrow> None
      | Some k \<Rightarrow>
          (case js_lookup apiMethods k of
             Missing \<Rightarrow> Some (send requestingClient (UnknownStream k) st)
           | found \<Rightarrow> Some (start_known streamName (spread found) requestingClient now st)))"

definition clearInterval :: "nat \<Rightarrow> bridge \<Rightarrow> bridge" where
  "clearInterval i st = st\<lparr>timers := (timers st)(i := None)\<rparr>"

definition stopStream :: "sname \<Rightarrow> nat \<Rightarrow> bridge \<Rightarrow> bridge" where
  "stopStream streamName requestingClient st =
     (case map_of (activeStreams st) streamName of
        None \<Rightarrow> st
      | Some stream \<Rightarrow>
          send requestingClient (StreamStopped (val_of streamName) (streamRequestCount stream))
            ((clearInterval (intervalId stream) st)
               \<lparr>activeStreams := AList.delete streamName (activeStreams st)\<rparr>))"

definition stopAllStreams :: "bridge \<Rightarrow> bridge" where
  "stopAllStreams st =
     (fold (\<lambda>(streamName, stream). clearInterval (intervalId stream)) (activeStreams st) st)
       \<lparr>activeStreams := []\<rparr>"

definition getCurrentBlock :: "nat \<Rightarrow> int \<Rightarrow> bridge \<Rightarrow> bridge" where
  "getCurrentBlock requestingClient now st =
     send requestingClient (CurrentBlock (currentBlock st) now) st"

definition getAPIStats :: "nat \<Rightarrow> int \<Rightarrow> bridge \<Rightarrow> bridge" where
  "getAPIStats requestingClient now st =
     send requestingClient
       (ApiStats (requestCount st) (length (activeStreams st))
          (length (filter (\<lambda>k. case cache st k of Some e \<Rightarrow> data e \<noteq> JNull | None \<Rightarrow> False)
             [''dynamic_global_properties'', ''block_header'', ''block'']))
          now) st"

subsection \<open>Client messages and socket events\<close>

text \<open>
  \<open>handleClientMessage\<close> on \<open>msg\<close>, the \<open>data\<close> of the source: any value that
  \<open>JSON.parse\<close> returned; \<open>i\<close> is
  the identity of \<open>data.stream\<close> when that is an array or an object. \<open>None\<close> is an
  exception: the read of \<open>data.type\<close> on \<open>null\<close>, the one of \<open>startStream\<close>, or a
  \<open>data.type\<close> that the template of the last branch cannot turn into a string. The
  \<open>switch\<close> compares with \<open>===\<close>. The field \<open>params\<close> of \<open>start_stream\<close> is passed on
  and never read.
\<close>

definition handleClientMessage ::
  "nat \<Rightarrow> jsval \<Rightarrow> nat \<Rightarrow> int \<Rightarrow> bridge \<Rightarrow> bridge option" where
  "handleClientMessage ws msg i now st =
     (case js_prop msg ''type'' of
        None \<Rightarrow> None
      | Some ty \<Rightarrow>
          if ty = JStr ''start_stream'' then
            (case js_prop msg ''stream'' of
               None \<Rightarrow> None
             | Some v \<Rightarrow> startStream (name_of v i) ws now st)
          else if ty = JStr ''stop_stream'' then
            (case js_prop msg ''stream'' of
               None \<Rightarrow> None
             | Some v \<Rightarrow> Some (stopStream (name_of v i) ws st))
          else if ty = JStr ''get_current_block'' then Some (getCurrentBlock ws now st)
          else if ty = JStr ''get_api_stats'' then Some (getAPIStats ws now st)
          else (case to_string ty of
                  None \<Rightarrow> None
                | Some s \<Rightarrow> Some (send ws (UnknownType s) st)))"

text \<open>
  The handler of \<open>message\<close> for a text that parses to \<open>msg\<close>: whatever
  \<open>handleClientMessage\<close> throws is answered with \<open>Invalid JSON\<close>. Each parse makes
  new objects.
\<close>

definition on_message :: "nat \<Rightarrow> jsval \<Rightarrow> int \<Rightarrow> bridge \<Rightarrow> bridge" where
  "on_message ws msg now st =
     (let st1 = st\<lparr>nextObject := nextObject st + 1\<rparr>
      in case handleClientMessage ws msg (nextObject st) now st1 of
           None \<Rightarrow> send ws InvalidJson st1
         | Some st2 \<Rightarrow> st2)"

text \<open>The handler of \<open>connection\<close>: the socket is open, and joins \<open>clients\<close> (a set).\<close>

definition on_connection :: "nat \<Rightarrow> int \<Rightarrow> bridge \<Rightarrow> bridge" where
  "on_connection ws now st =
     send ws (Welcome (currentBlock st) now)
       (st\<lparr>readyState := (readyState st)(ws := OPEN),
           clients := (if ws \<in> set (clients st) then clients st else clients st @ [ws])\<rparr>)"

text \<open>The handler of \<open>close\<close>; the socket is closed when it runs.\<close>

definition on_close :: "nat \<Rightarrow> bridge \<Rightarrow> bridge" where
  "on_close ws st =
     (let st1 = st\<lparr>readyState := (readyState st)(ws := CLOSED),
                   clients := removeAll ws (clients st)\<rparr>
      in if clients st1 = [] then stopAllStreams st1 else st1)"

text \<open>The handler of the socket's \<open>error\<close>.\<close>

definition on_error :: "nat \<Rightarrow> bridge \<Rightarrow> bridge" where
  "on_error ws st = st\<lparr>clients := removeAll ws (clients st)\<rparr>"

subsection \<open>The upstream call and the request queue\<close>

text \<open>
  What comes back from \<open>https.request\<close>: an \<open>error\<close> event, the 15 s timeout, a body
  that \<open>JSON.parse\<close> rejects, or a parsed body.
\<close>

datatype http_result =
    ConnectionError string
  | TimedOut
  | BadJson
  | Reply jsval

text \<open>
  How \<open>makeAPICall\<close> settles its promise. A body with a truthy \<open>error\<close> is rejected
  with \<open>result.error.message || result.error\<close>; the body \<open>null\<close> makes the read of
  \<open>result.error\<close> throw inside the \<open>try\<close>, which rejects too.
\<close>

fun makeAPICall :: "http_result \<Rightarrow> outcome" where
  "makeAPICall (ConnectionError m) = Rejected (TransportError m)"
| "makeAPICall TimedOut = Rejected TimeoutError"
| "makeAPICall BadJson = Rejected JsonSyntaxError"
| "makeAPICall (Reply result) =
     (case js_prop result ''error'' of
        None \<Rightarrow> Rejected TypeError
      | Some e \<Rightarrow>
          if truthy e
          then Rejected (ApiError (case js_prop e ''message'' of
                                     Some m \<Rightarrow> if truthy m then m else e
                                   | None \<Rightarrow> e))
          else Resolved result)"

text \<open>The call itself: \<open>calls\<close> records each request sent upstream and when.\<close>

definition dispatch :: "request \<Rightarrow> int \<Rightarrow> bridge \<Rightarrow> bridge" where
  "dispatch req now st =
     st\<lparr>calls := calls st @ [(now, r_method req, r_params req)],
        worker := Calling req now\<rparr>"

text \<open>
  The \<open>while\<close> loop of \<open>processRequestQueue\<close> from its test to the next \<open>await\<close>:
  either the spacing delay, or the call.
\<close>

definition queue_loop :: "int \<Rightarrow> bridge \<Rightarrow> bridge" where
  "queue_loop now st =
     (case requestQueue st of
        [] \<Rightarrow> st\<lparr>isProcessingQueue := False, worker := Polling (now + 1000)\<rparr>
      | req # rest \<Rightarrow>
          (let st1 = st\<lparr>requestQueue := rest\<rparr>;
               timeSinceLastRequest = now - lastRequestTime st1
           in if timeSinceLastRequest < requestDelay
              then st1\<lparr>worker := Sleeping req (now + (requestDelay - timeSinceLastRequest))\<rparr>
              else dispatch req now st1))"

definition processRequestQueue :: "int \<Rightarrow> bridge \<Rightarrow> bridge" where
  "processRequestQueue now st =
     (if isProcessingQueue st \<or> requestQueue st = []
      then st\<lparr>worker := Polling (now + 1000)\<rparr>
      else queue_loop now (st\<lparr>isProcessingQueue := True\<rparr>))"

text \<open>
  The loop after the call has settled at time \<open>now\<close>: only a resolved call sets
  \<open>lastRequestTime\<close> and counts; then the code awaiting the request runs, and the loop
  waits 200 ms.
\<close>

definition call_done :: "request \<Rightarrow> outcome \<Rightarrow> int \<Rightarrow> bridge \<Rightarrow> bridge" where
  "call_done req r now st =
     (let st1 = (case r of
                   Resolved response \<Rightarrow>
                     st\<lparr>lastRequestTime := now, requestCount := requestCount st + 1\<rparr>
                 | Rejected e \<Rightarrow> st)
      in (resume (r_cont req) r now st1)\<lparr>worker := Pausing (now + 200)\<rparr>)"

subsection \<open>Events\<close>

text \<open>
  Everything that makes the bridge run: socket events, the timers, and the settling
  of the upstream call.
\<close>

datatype event =
    Connection nat
  | Message nat jsval
  | Unparsable nat
  | Close nat
  | SocketError nat
  | Tick nat
  | QueueTimer
  | CallReturns http_result
  | ResetTimer
  | TestTimer
  | AutoTimer

text \<open>
  One event at time \<open>now\<close>. \<open>None\<close> means the event cannot happen in this state: the
  clock does not run backwards, a timer does not fire before it is due, and a call
  settles only while one is out.
\<close>

fun handle :: "event \<Rightarrow> int \<Rightarrow> bridge \<Rightarrow> bridge option" where
  "handle (Connection ws) now st = Some (on_connection ws now st)"
| "handle (Message ws msg) now st = Some (on_message ws msg now st)"
| "handle (Unparsable ws) now st = Some (send ws InvalidJson st)"
| "handle (Close ws) now st = Some (on_close ws st)"
| "handle (SocketError ws) now st = Some (on_error ws st)"
| "handle (Tick i) now st =
     (case timers st i of
        None \<Rightarrow> None
      | Some tm \<Rightarrow>
          if now < t_due tm then None
          else Some (fetchAndBroadcastOptimized (t_stream tm) i now
                       (st\<lparr>timers := (timers st)(i \<mapsto> tm\<lparr>t_due := now + t_delay tm\<rparr>)\<rparr>)))"
| "handle QueueTimer now st =
     (case worker st of
        Polling due \<Rightarrow> if now < due then None else Some (processRequestQueue now st)
      | Sleeping req due \<Rightarrow> if now < due then None else Some (dispatch req now st)
      | Pausing due \<Rightarrow> if now < due then None else Some (queue_loop now st)
      | Calling req started \<Rightarrow> None)"
| "handle (CallReturns h) now st =
     (case worker st of
        Calling req started \<Rightarrow> Some (call_done req (makeAPICall h) now st)
      | _ \<Rightarrow> None)"
| "handle ResetTimer now st =
     (if now < resetDue st then None
      else Some (st\<lparr>requestCount := 0, resetDue := now + 60000\<rparr>))"
| "handle TestTimer now st =
     (case testDue st of
        None \<Rightarrow> None
      | Some due \<Rightarrow>
          if now < due then None
          else Some (queueAPICall (Some ''condenser_api.get_dynamic_global_properties'')
                       (Some []) KTest (st\<lparr>testDue := None\<rparr>)))"
| "handle AutoTimer now st =
     (case autoDue st of
        None \<Rightarrow> None
      | Some due \<Rightarrow>
          if now < due then None
          else Some (queueAPICall (Some ''condenser_api.get_dynamic_global_properties'')
                       (Some []) KAuto (st\<lparr>autoDue := Some (now + 10000)\<rparr>)))"

definition step :: "int \<times> event \<Rightarrow> bridge \<Rightarrow> bridge option" where
  "step te st =
     (case te of (now, ev) \<Rightarrow>
        if now < clock st then None else handle ev now (st\<lparr>clock := now\<rparr>))"

fun run :: "(int \<times> event) list \<Rightarrow> bridge \<Rightarrow> bridge option" where
  "run [] st = Some st"
| "run (te # tes) st = (case step te st of None \<Rightarrow> None | Some st' \<Rightarrow> run tes st')"

subsection \<open>Notions the properties are stated with\<close>

text \<open>A stream name that is a string, and the two messages that carry a name.\<close>

abbreviation str :: "string \<Rightarrow> sname" where
  "str s \<equiv> Val (JStr s)"

definition start_stream :: "jsval \<Rightarrow> jsval" where
  "start_stream v = JObj [(''type'', JStr ''start_stream''), (''stream'', v)]"

definition stop_stream :: "jsval \<Rightarrow> jsval" where
  "stop_stream v = JObj [(''type'', JStr ''stop_stream''), (''stream'', v)]"

text \<open>The sockets a broadcast reaches: the connected clients whose socket is open.\<close>

definition recipients :: "bridge \<Rightarrow> nat list" where
  "recipients st = filter (\<lambda>ws. readyState st ws = OPEN) (clients st)"

text \<open>
  The fetches of a stream that have started and not finished: the requests, made by
  \<open>fetchAndBroadcastOptimized\<close> for that stream, that wait in the queue or are in the
  hands of the queue's loop.
\<close>

fun cont_stream :: "cont \<Rightarrow> sname option" where
  "cont_stream (KSeed s cfg now) = Some s"
| "cont_stream (KFetch s cfg now) = Some s"
| "cont_stream KTest = None"
| "cont_stream KAuto = None"

definition in_worker :: "bridge \<Rightarrow> request list" where
  "in_worker st =
     (case worker st of
        Sleeping req due \<Rightarrow> [req]
      | Calling req started \<Rightarrow> [req]
      | _ \<Rightarrow> [])"

definition pending_fetches :: "sname \<Rightarrow> bridge \<Rightarrow> nat" where
  "pending_fetches s st =
     length (filter (\<lambda>req. cont_stream (r_cont req) = Some s) (in_worker st @ requestQueue st))"

text \<open>
  A run in which a stream's timer fires while the stream's first call is still out: a
  client connects and starts the stream, the queue sends the call at 101000, and the
  8 s timer fires at 108020 before any reply.
\<close>

definition overlap_trace :: "(int \<times> event) list" where
  "overlap_trace =
     [(100010, Connection 1),
      (100020, Message 1 (start_stream (JStr ''dynamic_global_properties''))),
      (101000, QueueTimer),
      (108020, Tick 0)]"

text \<open>A state whose cache holds a value for the chain-state stream, written at 100020.\<close>

definition warm :: bridge where
  "warm =
     (init 100000)
       \<lparr>clients := [1], readyState := (\<lambda>ws. OPEN),
        cache := (cache (init 100000))(''dynamic_global_properties'' \<mapsto>
                   \<lparr>data = JObj [(''head_block_number'', JNum 5)], timestamp = 100020,
                    ttl = Some 5000\<rparr>),
        timers := [0 \<mapsto> \<lparr>t_stream = str ''dynamic_global_properties'', t_delay = 8000,
                           t_due = 104000\<rparr>]\<rparr>"

text \<open>
  A run in which the stream's first call fails 300 ms after it was sent, with \<open>h\<close>
  what came back.
\<close>

definition failing_trace :: "http_result \<Rightarrow> (int \<times> event) list" where
  "failing_trace h =
     [(100010, Connection 1),
      (100020, Message 1 (start_stream (JStr ''dynamic_global_properties''))),
      (101000, QueueTimer),
      (101300, CallReturns h)]"

text \<open>A run in which the stream's first call is answered two seconds after it was sent.\<close>

definition slow_reply_trace :: "(int \<times> event) list" where
  "slow_reply_trace =
     [(100010, Connection 1),
      (100020, Message 1 (start_stream (JStr ''dynamic_global_properties''))),
      (101000, QueueTimer),
      (103000, CallReturns (Reply (JObj [(''result'', JObj [(''head_block_number'', JNum 5)])])))]"

text \<open>A failure of the connection to the upstream: the request's \<open>error\<close> event, or its timeout.\<close>

fun connection_failure :: "http_result \<Rightarrow> bool" where
  "connection_failure (ConnectionError m) = True"
| "connection_failure TimedOut = True"
| "connection_failure BadJson = False"
| "connection_failure (Reply v) = False"

text \<open>
  After \<open>slow_reply_trace\<close> the client stops the stream and starts it again at
  106000: three seconds after the value was written at 103000, and 5980 ms after the
  fetch began.
\<close>

definition rejoin_trace :: "(int \<times> event) list" where
  "rejoin_trace =
     slow_reply_trace @
     [(103100, Message 1 (stop_stream (JStr ''dynamic_global_properties''))),
      (106000, Message 1 (start_stream (JStr ''dynamic_global_properties'')))]"

text \<open>A client asks for a stream named after a property of \<open>Object.prototype\<close>.\<close>

definition inherited_name_trace :: "(int \<times> event) list" where
  "inherited_name_trace =
     [(100010, Connection 1),
      (100020, Message 1 (start_stream (JStr ''constructor'')))]"

text \<open>
  The subscribers of a stream as the specification counts them, read off the events:
  a client joins a catalogue stream with \<open>start_stream\<close>, leaves it with
  \<open>stop_stream\<close>, and leaves every stream when its connection closes. The bridge
  itself keeps no such set.
\<close>

fun join_step :: "event \<Rightarrow> (nat \<times> string) list \<Rightarrow> (nat \<times> string) list" where
  "join_step (Message ws msg) js =
     (case js_prop msg ''stream'' of
        Some (JStr s) \<Rightarrow>
          if js_prop msg ''type'' = Some (JStr ''start_stream'')
          then (if apiMethods s = None then js else List.insert (ws, s) js)
          else if js_prop msg ''type'' = Some (JStr ''stop_stream'')
          then removeAll (ws, s) js
          else js
      | _ \<Rightarrow> js)"
| "join_step (Close ws) js = filter (\<lambda>(w, s). w \<noteq> ws) js"
| "join_step ev js = js"

definition subscribers_spec :: "(int \<times> event) list \<Rightarrow> string \<Rightarrow> nat list" where
  "subscribers_spec tes s =
     map fst (filter (\<lambda>(w, s'). s' = s) (fold join_step (map snd tes) []))"

text \<open>
  The events that can stop a stream: a \<open>stop_stream\<close> message and the close of a
  connection.
\<close>

fun stops :: "event \<Rightarrow> bool" where
  "stops (Message ws msg) = (js_prop msg ''type'' = Some (JStr ''stop_stream''))"
| "stops (Close ws) = True"
| "stops ev = False"

text \<open>
  A run in which the only client stops the stream while the stream's first call is
  out; the call is answered a second later.
\<close>

definition stop_in_flight_trace :: "(int \<times> event) list" where
  "stop_in_flight_trace =
     [(100010, Connection 1),
      (100020, Message 1 (start_stream (JStr ''dynamic_global_properties''))),
      (101000, QueueTimer),
      (102000, Message 1 (stop_stream (JStr ''dynamic_global_properties''))),
      (103000, CallReturns (Reply (JObj [(''result'', JObj [(''head_block_number'', JNum 5)])])))]"


text \<open>
  A state in which the call of a fetch of the chain-state stream, begun at 100020, is
  out since 101000, and the request that is out.
\<close>

definition out_request :: request where
  "out_request =
     \<lparr>r_method = Some ''condenser_api.get_dynamic_global_properties'', r_params = Some [],
      r_cont = KFetch (str ''dynamic_global_properties'') 0 100020\<rparr>"

definition calling :: bridge where
  "calling =
     (init 100000)
       \<lparr>clients := [1], readyState := (\<lambda>ws. OPEN),
        activeStreams := [(str ''dynamic_global_properties'',
           \<lparr>intervalId = 0, config = 0, startTime = 100020, streamRequestCount = 0\<rparr>)],
        configs := (\<lambda>r. spread (js_lookup apiMethods ''dynamic_global_properties'')),
        timers := [0 \<mapsto> \<lparr>t_stream = str ''dynamic_global_properties'', t_delay = 8000,
                           t_due = 108020\<rparr>],
        nextTimer := 1,
        worker := Calling out_request 101000,
        calls := [(101000, Some ''condenser_api.get_dynamic_global_properties'', Some [])],
        clock := 101000\<rparr>"

text \<open>The names of the active streams.\<close>

definition active_names :: "bridge \<Rightarrow> sname set" where
  "active_names st = dom (map_of (activeStreams st))"

text \<open>The stream names that pass the check of \<open>startStream\<close>.\<close>

definition known :: "sname set" where
  "known = {n. \<exists>k. key_of n = Some k \<and> js_lookup apiMethods k \<noteq> Missing}"

text \<open>
  A client starts the block stream, and then sends twice a \<open>start_stream\<close> whose
  \<open>stream\<close> is the array \<open>["block"]\<close>.
\<close>

definition array_name_trace :: "(int \<times> event) list" where
  "array_name_trace =
     [(100010, Connection 1),
      (100020, Message 1 (start_stream (JStr ''block''))),
      (100030, Message 1 (start_stream (JArr [JStr ''block'']))),
      (100040, Message 1 (start_stream (JArr [JStr ''block''])))]"

text \<open>
  The registry of streams: the timer of each active stream, the timers that run, and
  the next timer. In a state that is in order the timer of each active stream runs,
  and fires for that stream.
\<close>

definition ids :: "bridge \<Rightarrow> sname \<rightharpoonup> nat" where
  "ids st = (\<lambda>n. map_option intervalId (map_of (activeStreams st) n))"

definition reg :: "bridge \<Rightarrow> (sname \<rightharpoonup> nat) \<times> (nat \<rightharpoonup> timer) \<times> nat" where
  "reg st = (ids st, timers st, nextTimer st)"




text \<open>
  What the queue's loop has done and is doing: the calls sent upstream, the time of the
  last resolved call, the loop's position, and the clock.
\<close>

definition qview ::
    "bridge \<Rightarrow> (int \<times> string option \<times> jsval list option) list \<times> int \<times> worker \<times> int" where
  "qview st = (calls st, lastRequestTime st, worker st, clock st)"

text \<open>The number of calls sent upstream at a time \<open>t\<close> with \<open>lo \<le> t < hi\<close>.\<close>

definition calls_between :: "int \<Rightarrow> int \<Rightarrow> bridge \<Rightarrow> nat" where
  "calls_between lo hi st = length (filter (\<lambda>(t, m, p). lo \<le> t \<and> t < hi) (calls st))"

text \<open>An event other than the return of a call that \<open>makeAPICall\<close> rejects.\<close>

fun succeeds :: "event \<Rightarrow> bool" where
  "succeeds (CallReturns h) = (case makeAPICall h of Resolved v \<Rightarrow> True | Rejected e \<Rightarrow> False)"
| "succeeds ev = True"

text \<open>
  The calls so far are at least \<open>requestDelay\<close> apart, each of them either not later
  than \<open>lastRequestTime\<close> or the call that is out; a call that is out was made in the
  past, and a spacing delay that is running ends no earlier than \<open>requestDelay\<close> after
  \<open>lastRequestTime\<close>.
\<close>

definition spaced :: "bridge \<Rightarrow> bool" where
  "spaced st =
     (sorted_wrt (\<lambda>a b. a + requestDelay \<le> b) (map fst (calls st))
      \<and> (\<forall>t \<in> set (map fst (calls st)).
            t \<le> lastRequestTime st \<or> (\<exists>req. worker st = Calling req t))
      \<and> (\<forall>req started. worker st = Calling req started \<longrightarrow> started \<le> clock st)
      \<and> (\<forall>req due. worker st = Sleeping req due \<longrightarrow> lastRequestTime st + requestDelay \<le> due)
      \<and> lastRequestTime st \<le> clock st)"

text \<open>
  A run against an upstream that refuses connections: one client starts and stops a
  stream 61 times within 122 ms (each start finds the cache empty and queues a request),
  then the queue's loop makes the 61 calls, each refused after 50 ms.
\<close>

definition flood :: "nat \<Rightarrow> (int \<times> event) list" where
  "flood n =
     concat (map (\<lambda>k. [(100020 + 2 * int k, Message 1 (start_stream (JStr ''dynamic_global_properties''))),
                        (100021 + 2 * int k, Message 1 (stop_stream (JStr ''dynamic_global_properties'')))])
               [0..<n])"

definition drain :: "nat \<Rightarrow> (int \<times> event) list" where
  "drain n =
     concat (map (\<lambda>k. [(101000 + 250 * int k, QueueTimer),
                        (101050 + 250 * int k, CallReturns (ConnectionError ''ECONNREFUSED''))])
               [0..<n])"

definition burst_trace :: "(int \<times> event) list" where
  "burst_trace = (100010, Connection 1) # flood 61 @ drain 61"

text \<open>The states between the pairs of \<open>flood\<close> and between the rounds of \<open>drain\<close>.\<close>

definition flooded :: "nat \<Rightarrow> bridge \<Rightarrow> bool" where
  "flooded n st =
     (clock st \<le> 100020 + 2 * int n
      \<and> map_of (activeStreams st) (str ''dynamic_global_properties'') = None
      \<and> cache st ''dynamic_global_properties'' = Some \<lparr>data = JNull, timestamp = 0, ttl = Some 5000\<rparr>
      \<and> worker st = Polling 101000
      \<and> \<not> isProcessingQueue st
      \<and> lastRequestTime st = 0
      \<and> calls st = []
      \<and> length (requestQueue st) = n
      \<and> (\<forall>r \<in> set (requestQueue st). cont_stream (r_cont r) \<noteq> None))"

definition drained :: "nat \<Rightarrow> nat \<Rightarrow> bridge \<Rightarrow> bool" where
  "drained n j st =
     (clock st \<le> 101000 + 250 * int j
      \<and> worker st = (if j = 0 then Polling 101000 else Pausing (101000 + 250 * int j))
      \<and> (j = 0 \<longrightarrow> \<not> isProcessingQueue st)
      \<and> lastRequestTime st = 0
      \<and> map fst (calls st) = map (\<lambda>k. 101000 + 250 * int k) [0..<j]
      \<and> length (requestQueue st) + j = n
      \<and> (\<forall>r \<in> set (requestQueue st). cont_stream (r_cont r) \<noteq> None))"

text \<open>
  The reply that resolves the call of \<open>calling\<close> at 103000, the state after it, and the
  state after the client then stops the stream.
\<close>

definition reply5 :: jsval where
  "reply5 = JObj [(''result'', JObj [(''head_block_number'', JNum 5)])]"

definition written :: bridge where
  "written = call_done out_request (Resolved reply5) 103000 (calling\<lparr>clock := 103000\<rparr>)"

definition stopped :: bridge where
  "stopped = on_message 1 (stop_stream (JStr ''dynamic_global_properties'')) 103100
               (written\<lparr>clock := 103100\<rparr>)"

text \<open>
  The event returns, with a result, the call of a fetch of a stream whose name is the
  key \<open>s\<close>: the one kind of event that writes the cache entry \<open>s\<close>. A run keeps the
  entry when none of its events is of that kind.
\<close>

fun writes :: "string \<Rightarrow> bridge \<Rightarrow> event \<Rightarrow> bool" where
  "writes s st (CallReturns h) =
     (case worker st of
        Calling req started \<Rightarrow>
          (case r_cont req of
             KFetch s' cfg now \<Rightarrow>
               key_of s' = Some s \<and> (case makeAPICall h of Resolved v \<Rightarrow> True | Rejected e \<Rightarrow> False)
           | _ \<Rightarrow> False)
      | _ \<Rightarrow> False)"
| "writes s st ev = False"

fun run_keeps :: "string \<Rightarrow> (int \<times> event) list \<Rightarrow> bridge \<Rightarrow> bool" where
  "run_keeps s [] st = True"
| "run_keeps s (te # tes) st =
     (\<not> writes s st (snd te)
      \<and> (case step te st of None \<Rightarrow> True | Some st' \<Rightarrow> run_keeps s tes st'))"

section \<open>Properties\<close>

subsection \<open>Broadcasts and the cache check\<close>

lemmas eval_defs = init_def step_def on_connection_def send_def startStream_def stopStream_def
      js_lookup_def apiMethods_def timer_delay_def fetchAndBroadcastOptimized_def fresh_def
      fetch_fresh_def fetch_call_def queueAPICall_def processRequestQueue_def queue_loop_def
      requestDelay_def dispatch_def Let_def object_prototype_keys_def empty_config_def
      call_done_def fetch_done_def fetch_catch_def broadcast_def cache_write_def track_request_def
      on_close_def stopAllStreams_def clearInterval_def on_message_def handleClientMessage_def
      start_known_def key_of_def name_of_def start_stream_def stop_stream_def

lemma broadcast_eq:
  "broadcast m st = st\<lparr>outbox := outbox st @ map (\<lambda>ws. (ws, m)) (recipients st)\<rparr>"
  by (simp add: broadcast_def recipients_def)

lemma fetch_cache_hit:
  assumes "key_of s = Some k" and "cache st k = Some e" and "fresh e now"
  shows "fetchAndBroadcastOptimized s cfg now st =
           broadcast (LiveData (val_of s) (data e) True (Some (now - timestamp e)) now) st"
  using assms by (simp add: fetchAndBroadcastOptimized_def js_lookup_def)

text \<open>
  C3. When a stream's timer fires at \<open>now\<close> and the stream's cache entry holds a value
  with \<open>now - timestamp < ttl\<close>, the tick puts nothing in the request queue and sends
  nothing upstream; it leaves the cache as it is and sends each open client one
  \<open>live_data\<close> message carrying the cached value itself, with \<open>cached: true\<close>.
\<close>

theorem tick_cache_hit:
  assumes tm: "timers st i = Some tm" and due: "t_due tm \<le> now"
    and k: "key_of (t_stream tm) = Some k" and e: "cache st k = Some e"
    and present: "truthy (data e)" and l: "ttl e = Some l" and age: "now - timestamp e < l"
  shows "\<exists>st'. handle (Tick i) now st = Some st'
           \<and> requestQueue st' = requestQueue st
           \<and> calls st' = calls st
           \<and> worker st' = worker st
           \<and> cache st' = cache st
           \<and> outbox st' = outbox st @
                map (\<lambda>ws. (ws, LiveData (val_of (t_stream tm)) (data e) True
                                 (Some (now - timestamp e)) now))
                  (recipients st)"
proof -
  have f: "fresh e now" using present l age by (simp add: fresh_def)
  let ?st1 = "st\<lparr>timers := (timers st)(i \<mapsto> tm\<lparr>t_due := now + t_delay tm\<rparr>)\<rparr>"
  have c: "cache ?st1 k = Some e" using e by simp
  have "handle (Tick i) now st =
          Some (broadcast (LiveData (val_of (t_stream tm)) (data e) True
                             (Some (now - timestamp e)) now) ?st1)"
    using tm due fetch_cache_hit [OF k c f] by simp
  then show ?thesis by (simp add: broadcast_eq recipients_def)
qed

theorem tick_cache_hit_witness:
  "timers warm 0 =
     Some \<lparr>t_stream = str ''dynamic_global_properties'', t_delay = 8000, t_due = 104000\<rparr>
   \<and> (\<exists>st'. handle (Tick 0) 104000 warm = Some st'
      \<and> requestQueue st' = requestQueue warm \<and> calls st' = calls warm
      \<and> worker st' = worker warm \<and> cache st' = cache warm
      \<and> outbox st' = outbox warm @
           [(1, LiveData (JStr ''dynamic_global_properties'')
                  (JObj [(''head_block_number'', JNum 5)]) True (Some 3980) 104000)])"
  using tick_cache_hit [of warm 0
       "\<lparr>t_stream = str ''dynamic_global_properties'', t_delay = 8000, t_due = 104000\<rparr>" 104000
       "''dynamic_global_properties''"
       "\<lparr>data = JObj [(''head_block_number'', JNum 5)], timestamp = 100020, ttl = Some 5000\<rparr>"
       5000]
  by (simp add: warm_def recipients_def key_of_def)

subsection \<open>Ticks while a fetch is out\<close>

lemma pending_queueAPICall:
  "pending_fetches s (queueAPICall m p k st) =
     pending_fetches s st + (if cont_stream k = Some s then 1 else 0)"
  by (simp add: pending_fetches_def queueAPICall_def in_worker_def)

lemma pending_fetch_call: "pending_fetches s (fetch_call s cfg now st) = pending_fetches s st + 1"
  by (simp add: fetch_call_def Let_def pending_queueAPICall)
     (simp add: pending_fetches_def in_worker_def)

lemma pending_fetch_fresh: "pending_fetches s (fetch_fresh s cfg now st) = pending_fetches s st + 1"
  by (simp add: fetch_fresh_def pending_queueAPICall pending_fetch_call)

lemma queue_fetch_call:
  "length (requestQueue (fetch_call s cfg now st)) = length (requestQueue st) + 1"
  by (simp add: fetch_call_def Let_def queueAPICall_def)

lemma queue_fetch_fresh:
  "length (requestQueue (fetch_fresh s cfg now st)) = length (requestQueue st) + 1"
  by (simp add: fetch_fresh_def queueAPICall_def queue_fetch_call)

text \<open>
  C1, as the code has it. The method has no record of a fetch being out. When a
  stream's timer fires and the stream's cache entry is not fresh, the tick adds
  exactly one request to the queue, whatever number of earlier fetches of the same
  stream are still unfinished: that number grows by one.
\<close>

theorem tick_stale_enqueues:
  assumes tm: "timers st i = Some tm" and due: "t_due tm \<le> now"
    and k: "key_of (t_stream tm) = Some k"
    and e: "cache st k = Some e" and stale: "\<not> fresh e now"
  shows "\<exists>st'. handle (Tick i) now st = Some st'
           \<and> pending_fetches (t_stream tm) st' = pending_fetches (t_stream tm) st + 1
           \<and> length (requestQueue st') = length (requestQueue st) + 1"
proof -
  let ?st1 = "st\<lparr>timers := (timers st)(i \<mapsto> tm\<lparr>t_due := now + t_delay tm\<rparr>)\<rparr>"
  have p: "pending_fetches (t_stream tm) ?st1 = pending_fetches (t_stream tm) st"
    by (simp add: pending_fetches_def in_worker_def)
  have "handle (Tick i) now st = Some (fetch_fresh (t_stream tm) i now ?st1)"
    using tm due k e stale by (simp add: fetchAndBroadcastOptimized_def js_lookup_def)
  then show ?thesis
    using p by (simp add: pending_fetch_fresh queue_fetch_fresh)
qed

theorem tick_stale_enqueues_witness:
  "\<not> fresh \<lparr>data = JObj [(''head_block_number'', JNum 5)], timestamp = 100020, ttl = Some 5000\<rparr>
        106000
   \<and> (\<exists>st'. handle (Tick 0) 106000 warm = Some st'
      \<and> pending_fetches (str ''dynamic_global_properties'') st' =
          pending_fetches (str ''dynamic_global_properties'') warm + 1
      \<and> length (requestQueue st') = length (requestQueue warm) + 1)"
  using tick_stale_enqueues [of warm 0
       "\<lparr>t_stream = str ''dynamic_global_properties'', t_delay = 8000, t_due = 104000\<rparr>" 106000
       "''dynamic_global_properties''"
       "\<lparr>data = JObj [(''head_block_number'', JNum 5)], timestamp = 100020, ttl = Some 5000\<rparr>"]
  by (simp add: warm_def fresh_def key_of_def)

text \<open>
  C1 as stated fails. In \<open>overlap_trace\<close> one fetch of the stream is out before the
  tick at 108020, and two are after it: the tick was not skipped.
\<close>

theorem tick_overlap_counterexample:
  "map_option (pending_fetches (str ''dynamic_global_properties''))
     (run (butlast overlap_trace) (init 100000)) = Some 1
   \<and> map_option (pending_fetches (str ''dynamic_global_properties''))
     (run overlap_trace (init 100000)) = Some 2"
  by (simp add: overlap_trace_def eval_defs pending_fetches_def in_worker_def)

subsection \<open>What changes the cache\<close>

lemma cache_send [simp]: "cache (send ws m st) = cache st"
  by (simp add: send_def)

lemma cache_broadcast [simp]: "cache (broadcast m st) = cache st"
  by (simp add: broadcast_eq)

lemma cache_queueAPICall [simp]: "cache (queueAPICall m p k st) = cache st"
  by (simp add: queueAPICall_def)

lemma cache_fetch_call [simp]: "cache (fetch_call s cfg now st) = cache st"
  by (simp add: fetch_call_def Let_def)

lemma cache_fetch_fresh [simp]: "cache (fetch_fresh s cfg now st) = cache st"
  by (simp add: fetch_fresh_def)

lemma cache_fetchAndBroadcastOptimized [simp]:
  "cache (fetchAndBroadcastOptimized s cfg now st) = cache st"
  by (simp add: fetchAndBroadcastOptimized_def fetch_catch_def split: lookup.split option.split)

lemma cache_start_known [simp]: "cache (start_known s cfg ws now st) = cache st"
  by (simp add: start_known_def Let_def)

lemma cache_startStream: "startStream s ws now st = Some st' \<Longrightarrow> cache st' = cache st"
  by (auto simp: startStream_def split: option.splits lookup.splits)

lemma cache_stopStream [simp]: "cache (stopStream s ws st) = cache st"
  by (simp add: stopStream_def clearInterval_def split: option.split)

text \<open>\<open>stopAllStreams\<close> touches the timers and \<open>activeStreams\<close> only.\<close>

lemma fold_clear_frame:
  fixes xs :: "(sname \<times> stream_state) list"
  shows "fold (\<lambda>(streamName, stream). clearInterval (intervalId stream)) xs st =
     st\<lparr>timers := timers (fold (\<lambda>(streamName, stream). clearInterval (intervalId stream)) xs st)\<rparr>"
proof (induction xs arbitrary: st)
  case Nil
  then show ?case by simp
next
  case (Cons a xs)
  let ?f = "\<lambda>(streamName, stream). clearInterval (intervalId stream)"
  obtain n b where a: "a = (n :: sname, b)" by (cases a)
  have "fold ?f (a # xs) st = fold ?f xs (clearInterval (intervalId b) st)"
    by (simp add: a)
  also have "\<dots> = (clearInterval (intervalId b) st)
                      \<lparr>timers := timers (fold ?f xs (clearInterval (intervalId b) st))\<rparr>"
    by (rule Cons.IH)
  also have "\<dots> = st\<lparr>timers := timers (fold ?f xs (clearInterval (intervalId b) st))\<rparr>"
    by (simp add: clearInterval_def)
  also have "\<dots> = st\<lparr>timers := timers (fold ?f (a # xs) st)\<rparr>"
    by (simp add: a)
  finally show ?case .
qed

lemma stopAllStreams_eq:
  "stopAllStreams st = st\<lparr>timers := timers (stopAllStreams st), activeStreams := []\<rparr>"
proof -
  have "stopAllStreams st =
          (st\<lparr>timers := timers (fold (\<lambda>(streamName, stream). clearInterval (intervalId stream))
                                  (activeStreams st) st)\<rparr>)\<lparr>activeStreams := []\<rparr>"
    unfolding stopAllStreams_def by (subst fold_clear_frame) (rule refl)
  then show ?thesis by (simp add: stopAllStreams_def)
qed



lemma on_close_eq:
  "on_close ws st =
     (let st1 = st\<lparr>readyState := (readyState st)(ws := CLOSED),
                   clients := removeAll ws (clients st)\<rparr>
      in if clients st1 = []
         then st1\<lparr>timers := timers (stopAllStreams st1), activeStreams := []\<rparr>
         else st1)"
  unfolding on_close_def Let_def by (subst stopAllStreams_eq) (rule refl)

lemma cache_on_close [simp]: "cache (on_close ws st) = cache st"
  by (simp add: on_close_eq Let_def)

text \<open>What \<open>handleClientMessage\<close> does, by the branch of its \<open>switch\<close>.\<close>

lemma handleClientMessage_cases:
  assumes h: "handleClientMessage ws msg i now st = Some st'"
  obtains (start) v where "js_prop msg ''type'' = Some (JStr ''start_stream'')"
      and "js_prop msg ''stream'' = Some v" and "startStream (name_of v i) ws now st = Some st'"
    | (stop) v where "js_prop msg ''type'' = Some (JStr ''stop_stream'')"
      and "js_prop msg ''stream'' = Some v" and "st' = stopStream (name_of v i) ws st"
    | (block) "st' = getCurrentBlock ws now st"
    | (stats) "st' = getAPIStats ws now st"
    | (other) s where "st' = send ws (UnknownType s) st"
proof -
  obtain ty where ty: "js_prop msg ''type'' = Some ty"
    using h by (cases "js_prop msg ''type''") (simp_all add: handleClientMessage_def)
  consider "ty = JStr ''start_stream''"
    | "ty \<noteq> JStr ''start_stream''" "ty = JStr ''stop_stream''"
    | "ty \<noteq> JStr ''start_stream''" "ty \<noteq> JStr ''stop_stream''" "ty = JStr ''get_current_block''"
    | "ty \<noteq> JStr ''start_stream''" "ty \<noteq> JStr ''stop_stream''"
      "ty \<noteq> JStr ''get_current_block''" "ty = JStr ''get_api_stats''"
    | "ty \<noteq> JStr ''start_stream''" "ty \<noteq> JStr ''stop_stream''"
      "ty \<noteq> JStr ''get_current_block''" "ty \<noteq> JStr ''get_api_stats''"
    by blast
  then show thesis
  proof cases
    case 1
    with h ty start show ?thesis
      by (cases "js_prop msg ''stream''") (simp_all add: handleClientMessage_def)
  next
    case 2
    with h ty stop show ?thesis
      by (cases "js_prop msg ''stream''") (simp_all add: handleClientMessage_def)
  next
    case 3
    with h ty block show ?thesis by (simp add: handleClientMessage_def)
  next
    case 4
    with h ty stats show ?thesis by (simp add: handleClientMessage_def)
  next
    case 5
    with h ty other show ?thesis
      by (cases "to_string ty") (auto simp: handleClientMessage_def)
  qed
qed

lemma cache_handleClientMessage:
  assumes "handleClientMessage ws msg i now st = Some st'"
  shows "cache st' = cache st"
  using assms
  by (cases rule: handleClientMessage_cases)
     (simp_all add: getCurrentBlock_def getAPIStats_def cache_startStream)

lemma cache_on_message [simp]: "cache (on_message ws msg now st) = cache st"
  by (auto simp: on_message_def Let_def dest: cache_handleClientMessage split: option.split)

lemma cache_queue_loop [simp]: "cache (queue_loop now st) = cache st"
  by (simp add: queue_loop_def Let_def dispatch_def split: list.split)

lemma cache_fetch_seeded [simp]: "cache (fetch_seeded s cfg now v t st) = cache st"
  by (simp add: fetch_seeded_def fetch_catch_def split: option.split)

lemma cache_test_done [simp]: "cache (test_done r t st) = cache st"
  by (simp add: test_done_def split: outcome.split option.split)

lemma cache_auto_done [simp]: "cache (auto_done r st) = cache st"
  by (simp add: auto_done_def split: outcome.split option.split)

lemma cache_run_processor: "run_processor p r st = (d, st1) \<Longrightarrow> d = r \<and> cache st1 = cache st"
  by (cases p) auto

lemma cache_track_request [simp]: "cache (track_request s st) = cache st"
  by (simp add: track_request_def split: option.split)

text \<open>The one place that writes the cache.\<close>

lemma cache_fetch_done:
  "cache (fetch_done s cfg now response t st) = cache st
   \<or> (\<exists>k r l. key_of s = Some k \<and> js_prop response ''result'' = Some r \<and> truthy r
         \<and> cache (fetch_done s cfg now response t st) =
             (cache st)(k \<mapsto> \<lparr>data = r, timestamp = now, ttl = l\<rparr>))"
  by (auto simp: fetch_done_def fetch_catch_def cache_write_def
      split: option.split prod.split lookup.split dest!: cache_run_processor)

lemma cache_no_return:
  assumes h: "handle ev now st = Some st'" and nr: "\<And>h. ev \<noteq> CallReturns h"
  shows "cache st' = cache st"
proof (cases ev)
  case (Connection ws)
  with h show ?thesis by (auto simp: on_connection_def)
next
  case (Message ws m)
  with h show ?thesis by auto
next
  case (Unparsable ws)
  with h show ?thesis by auto
next
  case (Close ws)
  with h show ?thesis by auto
next
  case (SocketError ws)
  with h show ?thesis by (auto simp: on_error_def)
next
  case (Tick i)
  with h show ?thesis by (auto split: option.splits if_splits)
next
  case QueueTimer
  with h show ?thesis
    by (cases "worker st") (auto simp: processRequestQueue_def dispatch_def split: if_splits)
next
  case (CallReturns x)
  with nr [of x] show ?thesis by simp
next
  case ResetTimer
  with h show ?thesis by (auto split: if_splits)
next
  case TestTimer
  with h show ?thesis by (auto split: option.splits if_splits)
next
  case AutoTimer
  with h show ?thesis by (auto split: option.splits if_splits)
qed

lemma cache_change:
  assumes h: "handle ev t st = Some st'" and ch: "cache st' k \<noteq> cache st k"
  shows "\<exists>req started n cfg now e x v. ev = CallReturns x \<and> makeAPICall x = Resolved v
           \<and> worker st = Calling req started
           \<and> r_cont req = KFetch n cfg now \<and> key_of n = Some k
           \<and> cache st' k = Some e \<and> timestamp e = now"
proof -
  obtain x where ev: "ev = CallReturns x"
    using cache_no_return [OF h] ch by metis
  with h obtain req started where w: "worker st = Calling req started"
    and st': "st' = call_done req (makeAPICall x) t st"
    by (cases "worker st") auto
  show ?thesis
  proof (cases "r_cont req")
    case (KFetch s cfg now)
    show ?thesis
    proof (cases "makeAPICall x")
      case (Resolved v)
      let ?st1 = "st\<lparr>lastRequestTime := t, requestCount := requestCount st + 1\<rparr>"
      have c: "cache st' = cache (fetch_done s cfg now v t ?st1)"
        using st' KFetch Resolved by (simp add: call_done_def)
      from cache_fetch_done [of s cfg now v t ?st1] ch c
      obtain k' r l where k': "key_of s = Some k'"
        and "cache st' = (cache st)(k' \<mapsto> \<lparr>data = r, timestamp = now, ttl = l\<rparr>)"
        by auto
      with ch w KFetch ev Resolved show ?thesis by (auto split: if_splits)
    next
      case (Rejected e)
      with st' KFetch ch show ?thesis by (simp add: call_done_def fetch_catch_def)
    qed
  next
    case (KSeed s cfg now)
    with st' ch show ?thesis
      by (cases "makeAPICall x") (simp_all add: call_done_def fetch_catch_def)
  next
    case KTest
    with st' ch show ?thesis
      by (cases "makeAPICall x") (simp_all add: call_done_def)
  next
    case KAuto
    with st' ch show ?thesis
      by (cases "makeAPICall x") (simp_all add: call_done_def)
  qed
qed

lemma cache_kept:
  assumes h: "handle ev t st = Some st'" and nw: "\<not> writes k st ev"
  shows "cache st' k = cache st k"
proof (rule ccontr)
  assume "cache st' k \<noteq> cache st k"
  from cache_change [OF h this] nw show False by auto
qed

lemma cache_run_keeps:
  assumes "run tes st = Some st'" and "run_keeps k tes st"
  shows "cache st' k = cache st k"
  using assms
proof (induction tes arbitrary: st)
  case Nil
  then show ?case by simp
next
  case (Cons te tes)
  obtain now ev where te: "te = (now, ev)" by (cases te)
  from Cons.prems(1) obtain st1 where s1: "step te st = Some st1" and r: "run tes st1 = Some st'"
    by (auto split: option.splits)
  from s1 te have h: "handle ev now (st\<lparr>clock := now\<rparr>) = Some st1"
    by (simp add: step_def split: if_splits)
  from Cons.prems(2) s1 te have nw: "\<not> writes k st ev" and rk: "run_keeps k tes st1"
    by simp_all
  have "\<not> writes k (st\<lparr>clock := now\<rparr>) ev" using nw by (cases ev) simp_all
  from cache_kept [OF h this] have "cache st1 k = cache st k" by simp
  with Cons.IH [OF r rk] show ?case by simp
qed

text \<open>
  A request that \<open>fetchAndBroadcastOptimized\<close> queues carries the \<open>now\<close> the method
  read at its start, and the stream's own request after the seeding call carries it on.
\<close>

lemma fetch_keeps_start_time:
  "requestQueue (fetchAndBroadcastOptimized s cfg now st) = requestQueue st
   \<or> (\<exists>m p k. requestQueue (fetchAndBroadcastOptimized s cfg now st)
                  = requestQueue st @ [\<lparr>r_method = m, r_params = p, r_cont = k\<rparr>]
               \<and> (k = KSeed s cfg now \<or> k = KFetch s cfg now))"
  by (auto simp: fetchAndBroadcastOptimized_def fetch_fresh_def fetch_call_def fetch_catch_def
      queueAPICall_def broadcast_eq Let_def split: lookup.split option.split)

lemma seeded_keeps_start_time:
  "requestQueue (fetch_seeded s cfg now v t st) = requestQueue st
   \<or> (\<exists>m p. requestQueue (fetch_seeded s cfg now v t st)
                = requestQueue st @ [\<lparr>r_method = m, r_params = p, r_cont = KFetch s cfg now\<rparr>])"
  by (auto simp: fetch_seeded_def fetch_call_def fetch_catch_def queueAPICall_def broadcast_eq
      Let_def split: option.split)

text \<open>
  C7, as the code has it. Whenever an event changes the cache entry of a stream, the
  event is the return of the call of a fetch of that stream (of a name that is the
  entry's key), and the new entry's
  timestamp is the \<open>now\<close> that \<open>fetchAndBroadcastOptimized\<close> read when the fetch
  began (kept in the continuation), not the time \<open>t\<close> of the write.
\<close>

theorem cache_write_timestamp:
  assumes h: "handle ev t st = Some st'" and ch: "cache st' k \<noteq> cache st k"
  shows "\<exists>req started n cfg now e. worker st = Calling req started
           \<and> r_cont req = KFetch n cfg now \<and> key_of n = Some k
           \<and> cache st' k = Some e \<and> timestamp e = now"
  using cache_change [OF h ch] by blast

theorem cache_write_timestamp_witness:
  "handle (CallReturns (Reply (JObj [(''result'', JObj [(''head_block_number'', JNum 5)])])))
      103000 calling
     = Some (call_done out_request
               (Resolved (JObj [(''result'', JObj [(''head_block_number'', JNum 5)])])) 103000 calling)
   \<and> (\<exists>req started n cfg now e. worker calling = Calling req started
         \<and> r_cont req = KFetch n cfg now \<and> key_of n = Some ''dynamic_global_properties''
         \<and> cache (call_done out_request
               (Resolved (JObj [(''result'', JObj [(''head_block_number'', JNum 5)])])) 103000 calling)
              ''dynamic_global_properties'' = Some e
         \<and> timestamp e = now)"
proof -
  let ?st' = "call_done out_request
               (Resolved (JObj [(''result'', JObj [(''head_block_number'', JNum 5)])])) 103000 calling"
  have h: "handle (CallReturns (Reply (JObj [(''result'', JObj [(''head_block_number'', JNum 5)])])))
      103000 calling = Some ?st'"
    by (simp add: calling_def)
  have ch: "cache ?st' ''dynamic_global_properties'' \<noteq> cache calling ''dynamic_global_properties''"
    by (simp add: calling_def out_request_def eval_defs)
  from cache_write_timestamp [OF h ch] h show ?thesis by blast
qed

text \<open>
  C7 as stated fails. In \<open>slow_reply_trace\<close> the write happens at 103000 (the clock
  after the last event) and stamps the entry 100020, the time the fetch began: the age
  just after the write is 2980 ms, not zero.
\<close>

theorem write_age_counterexample:
  "map_option (\<lambda>st. (clock st, map_option timestamp (cache st ''dynamic_global_properties'')))
     (run slow_reply_trace (init 100000)) = Some (103000, Some 100020)"
  by (simp add: slow_reply_trace_def eval_defs)

subsection \<open>Failed fetches\<close>

lemma resume_rejected:
  "cont_stream k = Some s \<Longrightarrow>
   resume k (Rejected e) t st = broadcast (FetchError (val_of s) e t) st"
  by (cases k) (simp_all add: fetch_catch_def)

lemma connection_failure_rejected:
  "connection_failure h \<Longrightarrow>
   makeAPICall h = Rejected (case h of ConnectionError m \<Rightarrow> TransportError m | _ \<Rightarrow> TimeoutError)"
  by (cases h) simp_all

text \<open>
  C5, as the code has it, for the failures of the connection. When the call of a fetch
  fails with a transport error or a timeout, the \<open>catch\<close> block sends every open
  client one message of type \<open>fetch_error\<close> with the stream, the error and the time.
  The handler returns, and the stream's entry, its timer, the cache and the queue are
  as before, so the next tick tries again.
\<close>

theorem fetch_failure_reported:
  assumes w: "worker st = Calling req started"
    and k: "cont_stream (r_cont req) = Some s"
    and h: "connection_failure h"
  shows "\<exists>st' e. handle (CallReturns h) now st = Some st'
           \<and> e = (case h of ConnectionError m \<Rightarrow> TransportError m | _ \<Rightarrow> TimeoutError)
           \<and> outbox st' =
               outbox st @ map (\<lambda>ws. (ws, FetchError (val_of s) e now)) (recipients st)
           \<and> msg_type (FetchError (val_of s) e now) = ''fetch_error''
           \<and> activeStreams st' = activeStreams st
           \<and> timers st' = timers st
           \<and> cache st' = cache st
           \<and> requestQueue st' = requestQueue st"
  using w connection_failure_rejected [OF h]
  by (simp add: call_done_def resume_rejected [OF k] broadcast_eq recipients_def)

theorem fetch_failure_reported_witness:
  "connection_failure TimedOut
   \<and> (\<exists>st'. handle (CallReturns TimedOut) 116000 calling = Some st'
      \<and> outbox st' = [(1, FetchError (JStr ''dynamic_global_properties'') TimeoutError 116000)]
      \<and> activeStreams st' = activeStreams calling
      \<and> timers st' = timers calling)"
  using fetch_failure_reported [of calling out_request 101000 "str ''dynamic_global_properties''"
          TimedOut 116000]
  by (simp add: calling_def out_request_def recipients_def init_def)

text \<open>
  C5 as stated fails: after a refused connection, and after a timeout, the message the
  client gets has type \<open>fetch_error\<close>, not \<open>error\<close>.
\<close>

theorem fetch_failure_type_counterexample:
  "map_option (\<lambda>st. map (\<lambda>(ws, m). msg_type m) (outbox st))
     (run (failing_trace (ConnectionError ''ECONNREFUSED'')) (init 100000))
     = Some [''welcome'', ''stream_started'', ''fetch_error'']
   \<and> map_option (\<lambda>st. map (\<lambda>(ws, m). msg_type m) (outbox st))
     (run (failing_trace TimedOut) (init 100000))
     = Some [''welcome'', ''stream_started'', ''fetch_error'']"
  by (simp add: failing_trace_def eval_defs)

text \<open>
  An error reply of the upstream. \<open>fetchAndBroadcastOptimized\<close> has a branch for it,
  which sends type \<open>error\<close> with the reply's message; but \<open>makeAPICall\<close> rejects
  such a reply, so the branch is never entered by a call and the reply is reported by
  the \<open>catch\<close> block like a failure of the connection.
\<close>

lemma error_reply_branch:
  assumes "js_prop response ''result'' = Some r" and "\<not> truthy r"
    and "js_prop response ''error'' = Some e" and "truthy e"
  shows "fetch_done s cfg now response t st =
           broadcast (StreamError (val_of s)
                        (case js_prop e ''message'' of Some m \<Rightarrow> m | None \<Rightarrow> JUndefined) t) st"
  using assms by (simp add: fetch_done_def)

lemma error_reply_rejected:
  assumes "js_prop reply ''error'' = Some e" and "truthy e"
  shows "\<exists>x. makeAPICall (Reply reply) = Rejected (ApiError x)"
  using assms by simp

lemma error_reply_trace:
  "map_option (\<lambda>st. map (\<lambda>(ws, m). msg_type m) (outbox st))
     (run (failing_trace (Reply (JObj [(''error'', JObj [(''message'', JStr ''boom'')])])))
        (init 100000))
     = Some [''welcome'', ''stream_started'', ''fetch_error'']"
  by (simp add: failing_trace_def eval_defs)

subsection \<open>Stream names\<close>

text \<open>
  What \<open>startStream\<close> does with a name that is neither in the catalogue nor inherited,
  and with a name of the catalogue.
\<close>

lemma startStream_unknown:
  "key_of s = Some k \<Longrightarrow> js_lookup apiMethods k = Missing \<Longrightarrow>
   startStream s ws now st = Some (st\<lparr>outbox := outbox st @ [(ws, UnknownStream k)]\<rparr>)"
  by (simp add: startStream_def send_def)

lemma startStream_catalogue:
  "key_of s = Some k \<Longrightarrow> apiMethods k = Some c \<Longrightarrow>
   \<exists>st'. startStream s ws now st = Some st'
     \<and> last (outbox st') = (ws, StreamStarted (val_of s) (interval c))"
  by (simp add: startStream_def start_known_def js_lookup_def send_def Let_def)

text \<open>
  C6, at a name the catalogue does not have. \<open>this.apiMethods['constructor']\<close> is
  the inherited \<open>Object\<close> function, which passes the test of \<open>startStream\<close>: the
  stream is activated with a 1 ms timer, a request with no method is queued, and the
  client is told \<open>stream_started\<close> with no interval.
\<close>

theorem inherited_name_started:
  "map_option (\<lambda>st. (map fst (activeStreams st), timers st 0, map r_method (requestQueue st),
                      outbox st))
     (run inherited_name_trace (init 100000))
   = Some ([str ''constructor''],
           Some \<lparr>t_stream = str ''constructor'', t_delay = 1, t_due = 100021\<rparr>,
           [None],
           [(1, Welcome (JNum 0) 100010), (1, StreamStarted (JStr ''constructor'') None)])"
  by (simp add: inherited_name_trace_def eval_defs)

subsection \<open>Stopping a stream while its fetch is out\<close>

lemma cache_fetch_done_cong:
  assumes "cache st1 = cache st2" and "configs st1 cfg = configs st2 cfg"
  shows "cache (fetch_done s cfg now v t st1) = cache (fetch_done s cfg now v t st2)"
proof (cases "js_prop v ''result''")
  case None
  then show ?thesis using assms by (simp add: fetch_done_def fetch_catch_def)
next
  case (Some r)
  show ?thesis
  proof (cases "truthy r")
    case False
    with Some show ?thesis using assms
      by (simp add: fetch_done_def fetch_catch_def split: option.split)
  next
    case True
    show ?thesis
    proof (cases "processor (configs st2 cfg)")
      case None
      with Some True show ?thesis using assms by (simp add: fetch_done_def fetch_catch_def)
    next
      case (Some p)
      with \<open>js_prop v ''result'' = Some r\<close> True show ?thesis using assms
        by (cases p)
           (simp_all add: fetch_done_def fetch_catch_def cache_write_def js_lookup_def
              split: option.split)
    qed
  qed
qed

lemma cache_resume_cong:
  assumes "cache st1 = cache st2" and "configs st1 = configs st2"
  shows "cache (resume k r t st1) = cache (resume k r t st2)"
proof (cases k)
  case (KFetch s cfg now)
  show ?thesis
  proof (cases r)
    case (Resolved v)
    with KFetch show ?thesis
      using cache_fetch_done_cong [of st1 st2 cfg s now v t] assms by simp
  next
    case (Rejected e)
    with KFetch show ?thesis using assms(1) by (simp add: fetch_catch_def)
  qed
next
  case (KSeed s cfg now)
  then show ?thesis using assms(1) by (cases r) (simp_all add: fetch_catch_def)
next
  case KTest
  then show ?thesis using assms(1) by simp
next
  case KAuto
  then show ?thesis using assms(1) by simp
qed

lemma configs_stopStream: "configs (stopStream s ws st) = configs st"
  by (simp add: stopStream_def send_def clearInterval_def split: option.split)

lemma configs_on_close: "configs (on_close ws st) = configs st"
  by (simp add: on_close_eq Let_def)

lemma queue_stopStream:
  "requestQueue (stopStream s ws st) = requestQueue st \<and> worker (stopStream s ws st) = worker st"
  by (simp add: stopStream_def send_def clearInterval_def split: option.split)

lemma queue_on_close:
  "requestQueue (on_close ws st) = requestQueue st \<and> worker (on_close ws st) = worker st"
  by (simp add: on_close_eq Let_def)

lemma fetch_done_writes:
  assumes "js_prop v ''result'' = Some r" and "truthy r"
    and "processor (configs st cfg) = Some p"
    and "key_of s = Some k" and "cache st k = Some old"
  shows "cache (fetch_done s cfg now v t st) k = Some \<lparr>data = r, timestamp = now, ttl = ttl old\<rparr>"
  using assms
  by (cases p) (simp_all add: fetch_done_def cache_write_def js_lookup_def)

lemma outbox_resume_no_clients:
  assumes "clients st = []"
  shows "outbox (resume k r t st) = outbox st"
proof -
  have b: "\<And>m st'. clients st' = [] \<Longrightarrow> broadcast m st' = st'"
    by (simp add: broadcast_def)
  have q: "\<And>m p k st'. outbox (queueAPICall m p k st') = outbox st'"
    by (simp add: queueAPICall_def)
  have fc: "\<And>s cfg now st'. outbox (fetch_call s cfg now st') = outbox st'"
    by (simp add: fetch_call_def Let_def q)
  have tr: "\<And>s st'. clients (track_request s st') = clients st' \<and> outbox (track_request s st') = outbox st'"
    by (simp add: track_request_def split: option.split)
  have rp: "\<And>p v st' d st1. run_processor p v st' = (d, st1) \<Longrightarrow> clients st1 = clients st' \<and> outbox st1 = outbox st'"
    subgoal for p by (cases p) auto
    done
  have cw: "\<And>s d now st' st2. cache_write s d now st' = Some st2 \<Longrightarrow> clients st2 = clients st' \<and> outbox st2 = outbox st'"
    by (auto simp: cache_write_def split: lookup.splits option.splits)
  show ?thesis
  proof (cases k)
    case (KFetch s cfg now)
    show ?thesis
    proof (cases r)
      case (Rejected e)
      with KFetch assms show ?thesis by (simp add: fetch_catch_def b)
    next
      case (Resolved v)
      with KFetch assms show ?thesis
        by (auto simp: fetch_done_def fetch_catch_def b tr
            split: option.split prod.split dest!: rp cw)
    qed
  next
    case (KSeed s cfg now)
    with assms show ?thesis
      by (cases r) (auto simp: fetch_seeded_def fetch_catch_def b fc split: option.split)
  next
    case KTest
    then show ?thesis by (cases r) (auto simp: test_done_def split: option.split)
  next
    case KAuto
    then show ?thesis by (cases r) (auto simp: auto_done_def split: option.split)
  qed
qed

lemma fetch_done_broadcasts:
  assumes "js_prop v ''result'' = Some r" and "truthy r"
    and "processor (configs st cfg) = Some p"
    and "key_of s = Some k" and "cache st k = Some old"
  shows "outbox (fetch_done s cfg now v t st) =
           outbox st @ map (\<lambda>w. (w, LiveData (val_of s) r False None t)) (recipients st)"
  using assms
  by (cases p)
     (simp_all add: fetch_done_def cache_write_def js_lookup_def broadcast_eq recipients_def
        track_request_def split: option.split)

lemma recipients_stopStream: "recipients (stopStream s ws st) = recipients st"
  by (simp add: stopStream_def send_def clearInterval_def recipients_def split: option.split)

lemma js_prop_defined: "js_prop m a = Some x \<Longrightarrow> \<exists>v. js_prop m b = Some v"
  by (cases m) (simp_all split: option.split)

lemma on_message_stop:
  assumes "js_prop msg ''type'' = Some (JStr ''stop_stream'')"
  shows "\<exists>v. js_prop msg ''stream'' = Some v
           \<and> on_message ws msg now st =
               stopStream (name_of v (nextObject st)) ws (st\<lparr>nextObject := nextObject st + 1\<rparr>)"
proof -
  from js_prop_defined [OF assms] obtain v where v: "js_prop msg ''stream'' = Some v" by blast
  with assms show ?thesis by (simp add: on_message_def handleClientMessage_def)
qed

text \<open>
  What a stop leaves alone: the queue and the loop's position, the cache, the copies of
  the catalogue entries, and for a \<open>stop_stream\<close> the sockets a broadcast reaches.
\<close>

lemma stops_frame:
  assumes "stops ev"
  shows "\<exists>st1. handle ev t st = Some st1
           \<and> requestQueue st1 = requestQueue st \<and> worker st1 = worker st
           \<and> cache st1 = cache st \<and> configs st1 = configs st
           \<and> outbox st1 = outbox st @ drop (length (outbox st)) (outbox st1)"
proof (cases ev)
  case (Message ws msg)
  with assms have ty: "js_prop msg ''type'' = Some (JStr ''stop_stream'')" by simp
  from on_message_stop [OF ty, of ws t st] Message show ?thesis
    by (auto simp: queue_stopStream configs_stopStream stopStream_def send_def clearInterval_def
        split: option.split)
next
  case (Close ws)
  then show ?thesis by (simp add: queue_on_close configs_on_close) (simp add: on_close_eq Let_def)
qed (use assms in simp_all)

lemma recipients_stop_message:
  assumes "js_prop msg ''type'' = Some (JStr ''stop_stream'')"
  shows "recipients (on_message ws msg t st) = recipients st"
proof -
  from on_message_stop [OF assms, of ws t st] obtain v where
    "on_message ws msg t st =
       stopStream (name_of v (nextObject st)) ws (st\<lparr>nextObject := nextObject st + 1\<rparr>)"
    by blast
  then show ?thesis by (simp add: recipients_stopStream) (simp add: recipients_def)
qed

lemma filter_closed:
  "filter (\<lambda>w. (f(ws := CLOSED)) w = OPEN) (removeAll ws xs) =
     removeAll ws (filter (\<lambda>w. f w = OPEN) xs)"
  by (induction xs) (simp_all del: fun_upd_apply, simp_all)

lemma recipients_on_close: "recipients (on_close ws st) = removeAll ws (recipients st)"
proof -
  have c: "clients (on_close ws st) = removeAll ws (clients st)"
    by (simp add: on_close_eq Let_def)
  have r: "readyState (on_close ws st) = (readyState st)(ws := CLOSED)"
    by (simp add: on_close_eq Let_def)
  show ?thesis unfolding recipients_def c r by (rule filter_closed)
qed

lemma call_done_cache:
  "cache (call_done req r now st) = cache (resume (r_cont req) r now st)"
proof (cases r)
  case (Resolved v)
  let ?st1 = "st\<lparr>lastRequestTime := now, requestCount := requestCount st + 1\<rparr>"
  have "cache (resume (r_cont req) r now ?st1) = cache (resume (r_cont req) r now st)"
    using cache_resume_cong [of ?st1 st "r_cont req" r now] by simp
  with Resolved show ?thesis by (simp add: call_done_def)
next
  case (Rejected e)
  then show ?thesis by (simp add: call_done_def)
qed

text \<open>
  C9, as the code has it. Let the call of a fetch of a stream be out, and let an event
  stop streams: a \<open>stop_stream\<close> message or the close of a connection. The stop
  leaves the request queue and the call that is out untouched. When the call then
  returns, it is handled, and the cache ends exactly as it does without the stop; a
  result is written to the stream's entry, stamped with the start of the fetch, and is
  sent as \<open>live_data\<close> to every connected client whose socket is open. After a
  \<open>stop_stream\<close> these are the same clients as before, the one that stopped the
  stream among them; after a close, the others. Only with no client connected is
  nothing sent.
\<close>

theorem stopped_stream_fetch_completes:
  assumes w: "worker st = Calling req started" and k: "r_cont req = KFetch n cfg t0"
    and stop: "stops ev"
  shows "\<exists>st1 st2 st2'.
           handle ev t1 st = Some st1
         \<and> requestQueue st1 = requestQueue st \<and> worker st1 = worker st
         \<and> handle (CallReturns h) t2 st1 = Some st2
         \<and> handle (CallReturns h) t2 st = Some st2'
         \<and> cache st2 = cache st2'
         \<and> (\<forall>response d p k old.
               makeAPICall h = Resolved response \<and> js_prop response ''result'' = Some d
               \<and> truthy d \<and> processor (configs st cfg) = Some p
               \<and> key_of n = Some k \<and> cache st k = Some old \<longrightarrow>
                 cache st2 k = Some \<lparr>data = d, timestamp = t0, ttl = ttl old\<rparr>
                 \<and> outbox st2 =
                     outbox st1 @ map (\<lambda>w. (w, LiveData (val_of n) d False None t2))
                                    (recipients st1))
         \<and> (\<forall>ws msg. ev = Message ws msg \<longrightarrow> recipients st1 = recipients st)
         \<and> (\<forall>ws. ev = Close ws \<longrightarrow> recipients st1 = removeAll ws (recipients st))
         \<and> (clients st1 = [] \<longrightarrow> outbox st2 = outbox st1)"
proof -
  from stops_frame [OF stop, of t1 st] obtain st1 where s1: "handle ev t1 st = Some st1"
    and q: "requestQueue st1 = requestQueue st" and wk: "worker st1 = worker st"
    and c1: "cache st1 = cache st" and cf: "configs st1 = configs st"
    by blast
  let ?r = "makeAPICall h"
  let ?st2 = "call_done req ?r t2 st1"
  let ?st2' = "call_done req ?r t2 st"
  have h1: "handle (CallReturns h) t2 st1 = Some ?st2" using w wk by simp
  have h2: "handle (CallReturns h) t2 st = Some ?st2'" using w by simp
  have ceq: "cache ?st2 = cache ?st2'"
    using cache_resume_cong [of st1 st "r_cont req" ?r t2] c1 cf by (simp add: call_done_cache)
  have wr: "\<forall>response d p k old.
               makeAPICall h = Resolved response \<and> js_prop response ''result'' = Some d
               \<and> truthy d \<and> processor (configs st cfg) = Some p
               \<and> key_of n = Some k \<and> cache st k = Some old \<longrightarrow>
                 cache ?st2 k = Some \<lparr>data = d, timestamp = t0, ttl = ttl old\<rparr>
                 \<and> outbox ?st2 =
                     outbox st1 @ map (\<lambda>w. (w, LiveData (val_of n) d False None t2))
                                    (recipients st1)"
  proof (intro allI impI, elim conjE)
    fix response d p k old
    assume res: "makeAPICall h = Resolved response"
      and d: "js_prop response ''result'' = Some d" and td: "truthy d"
      and p: "processor (configs st cfg) = Some p"
      and key: "key_of n = Some k" and old: "cache st k = Some old"
    let ?s = "st1\<lparr>lastRequestTime := t2, requestCount := requestCount st1 + 1\<rparr>"
    have e: "?st2 = (fetch_done n cfg t0 response t2 ?s)\<lparr>worker := Pausing (t2 + 200)\<rparr>"
      using k res by (simp add: call_done_def)
    have pr: "processor (configs ?s cfg) = Some p" using cf p by simp
    have ol: "cache ?s k = Some old" using c1 old by simp
    have rs: "recipients ?s = recipients st1" by (simp add: recipients_def)
    have os: "outbox ?s = outbox st1" by simp
    from fetch_done_writes [OF d td pr key ol, of t0 t2]
      fetch_done_broadcasts [OF d td pr key ol, of t0 t2]
    show "cache ?st2 k = Some \<lparr>data = d, timestamp = t0, ttl = ttl old\<rparr>
          \<and> outbox ?st2 =
              outbox st1 @ map (\<lambda>w. (w, LiveData (val_of n) d False None t2)) (recipients st1)"
      unfolding e rs os by simp
  qed
  have rm: "\<forall>ws msg. ev = Message ws msg \<longrightarrow> recipients st1 = recipients st"
    using s1 stop by (auto simp: recipients_stop_message)
  have rc: "\<forall>ws. ev = Close ws \<longrightarrow> recipients st1 = removeAll ws (recipients st)"
    using s1 by (auto simp: recipients_on_close)
  have nc: "clients st1 = [] \<longrightarrow> outbox ?st2 = outbox st1"
    by (cases ?r) (simp_all add: call_done_def outbox_resume_no_clients)
  from s1 q wk h1 h2 ceq wr rm rc nc show ?thesis by blast
qed

theorem stopped_stream_fetch_completes_witness:
  "worker calling = Calling out_request 101000
   \<and> stops (Message 1 (stop_stream (JStr ''dynamic_global_properties'')))
   \<and> (\<exists>st1 st2.
         handle (Message 1 (stop_stream (JStr ''dynamic_global_properties''))) 102000 calling
           = Some st1
       \<and> activeStreams st1 = []
       \<and> handle (CallReturns (Reply reply5)) 103000 st1 = Some st2
       \<and> cache st2 ''dynamic_global_properties'' =
           Some \<lparr>data = JObj [(''head_block_number'', JNum 5)], timestamp = 100020,
                 ttl = Some 5000\<rparr>
       \<and> outbox st2 = outbox st1 @
           [(1, LiveData (JStr ''dynamic_global_properties'')
                  (JObj [(''head_block_number'', JNum 5)]) False None 103000)])"
proof -
  let ?ev = "Message 1 (stop_stream (JStr ''dynamic_global_properties''))"
  let ?d = "JObj [(''head_block_number'', JNum 5)]"
  let ?old = "\<lparr>data = JNull, timestamp = 0, ttl = Some 5000\<rparr>"
  have w: "worker calling = Calling out_request 101000" by (simp add: calling_def)
  have k: "r_cont out_request = KFetch (str ''dynamic_global_properties'') 0 100020"
    by (simp add: out_request_def)
  have stop: "stops ?ev" by (simp add: stop_stream_def)
  from stopped_stream_fetch_completes [OF w k stop, of 102000 "Reply reply5" 103000]
  obtain st1 st2 where s1: "handle ?ev 102000 calling = Some st1"
    and s2: "handle (CallReturns (Reply reply5)) 103000 st1 = Some st2"
    and wr: "\<forall>response d p k old.
               makeAPICall (Reply reply5) = Resolved response
               \<and> js_prop response ''result'' = Some d
               \<and> truthy d \<and> processor (configs calling 0) = Some p
               \<and> key_of (str ''dynamic_global_properties'') = Some k
               \<and> cache calling k = Some old \<longrightarrow>
                 cache st2 k = Some \<lparr>data = d, timestamp = 100020, ttl = ttl old\<rparr>
                 \<and> outbox st2 =
                     outbox st1 @ map (\<lambda>w. (w, LiveData (val_of (str ''dynamic_global_properties''))
                                                  d False None 103000))
                                    (recipients st1)"
    and rm: "\<forall>ws msg. ?ev = Message ws msg \<longrightarrow> recipients st1 = recipients calling"
    by blast
  have hyp: "makeAPICall (Reply reply5) = Resolved reply5
               \<and> js_prop reply5 ''result'' = Some ?d
               \<and> truthy ?d \<and> processor (configs calling 0) = Some ProcessDynamicGlobalProperties
               \<and> key_of (str ''dynamic_global_properties'') = Some ''dynamic_global_properties''
               \<and> cache calling ''dynamic_global_properties'' = Some ?old"
    by (simp add: reply5_def calling_def init_def js_lookup_def apiMethods_def key_of_def)
  from wr hyp have a: "cache st2 ''dynamic_global_properties'' =
                         Some \<lparr>data = ?d, timestamp = 100020, ttl = ttl ?old\<rparr>"
    and b: "outbox st2 =
              outbox st1 @ map (\<lambda>w. (w, LiveData (val_of (str ''dynamic_global_properties''))
                                           ?d False None 103000)) (recipients st1)"
    by blast+
  from rm have r: "recipients st1 = [1]" by (simp add: recipients_def calling_def)
  have act: "activeStreams st1 = []"
    using s1 by (auto simp: calling_def eval_defs)
  from w stop s1 s2 a b r act show ?thesis by simp
qed

text \<open>
  C9 as stated fails. In \<open>stop_in_flight_trace\<close> the only client that started the
  stream has stopped it when the call returns: the stream has no subscriber and is not
  active, and the result is sent to that client all the same.
\<close>

theorem stopped_stream_broadcast_counterexample:
  "subscribers_spec stop_in_flight_trace ''dynamic_global_properties'' = []
   \<and> map_option (\<lambda>st. (activeStreams st, last (outbox st)))
       (run stop_in_flight_trace (init 100000))
     = Some ([], (1, LiveData (JStr ''dynamic_global_properties'')
                       (JObj [(''head_block_number'', JNum 5)]) False None 103000))"
  by (simp add: stop_in_flight_trace_def subscribers_spec_def eval_defs)

subsection \<open>The cache round trip\<close>

lemma outbox_startStream_hit:
  assumes key: "key_of s = Some k" and c: "cache st k = Some e" and f: "fresh e now"
    and inactive: "map_of (activeStreams st) s = None"
    and known: "js_lookup apiMethods k \<noteq> Missing"
  shows "\<exists>st'. startStream s ws now st = Some st'
         \<and> outbox st' =
             outbox st @ map (\<lambda>w. (w, LiveData (val_of s) (data e) True
                                          (Some (now - timestamp e)) now))
                           (recipients st)
               @ [(ws, StreamStarted (val_of s) (interval (spread (js_lookup apiMethods k))))]
         \<and> requestQueue st' = requestQueue st
         \<and> calls st' = calls st"
proof -
  let ?cfg = "spread (js_lookup apiMethods k)"
  let ?i = "nextTimer st"
  let ?st' = "st\<lparr>nextTimer := ?i + 1, configs := (configs st)(?i := ?cfg),
                 timers := (timers st)(?i \<mapsto> \<lparr>t_stream = s, t_delay = timer_delay (interval ?cfg),
                                              t_due = now + timer_delay (interval ?cfg)\<rparr>),
                 activeStreams := AList.update s
                    \<lparr>intervalId = ?i, config = ?i, startTime = now, streamRequestCount = 0\<rparr>
                    (activeStreams st)\<rparr>"
  have c': "cache ?st' k = Some e" using c by simp
  have fh: "fetchAndBroadcastOptimized s ?i now ?st' =
              broadcast (LiveData (val_of s) (data e) True (Some (now - timestamp e)) now) ?st'"
    by (rule fetch_cache_hit [OF key c' f])
  have "startStream s ws now st =
          Some (send ws (StreamStarted (val_of s) (interval ?cfg))
            (broadcast (LiveData (val_of s) (data e) True (Some (now - timestamp e)) now) ?st'))"
    using key inactive known fh
    by (cases "js_lookup apiMethods k") (simp_all add: startStream_def start_known_def Let_def)
  then show ?thesis
    by (simp add: broadcast_eq send_def recipients_def)
qed

text \<open>
  C8, as the code has it. Let the call of a fetch of stream \<open>s\<close>, begun at \<open>t0\<close>,
  resolve at any later time \<open>tw\<close> with result \<open>v\<close>, so that \<open>v\<close> is written to the
  cache. After any events that follow, stops of the stream and closes included, as long
  as no later result for \<open>s\<close> is written, a fetch of \<open>s\<close> at a time \<open>t\<close> with
  \<open>t - t0 < ttl\<close> broadcasts exactly \<open>v\<close> with \<open>cached: true\<close>; in particular a
  client that starts the stream again gets \<open>v\<close> at once and no request is queued. The
  time is counted from the start of the fetch, not from the write.
\<close>

theorem cache_round_trip:
  assumes w: "worker st0 = Calling req started" and k: "r_cont req = KFetch s cfg t0"
    and key: "key_of s = Some k"
    and h: "makeAPICall h = Resolved response"
    and v: "js_prop response ''result'' = Some v" and tv: "truthy v"
    and p: "processor (configs st0 cfg) = Some p"
    and old: "cache st0 k = Some old" and l: "ttl old = Some l"
    and wr: "handle (CallReturns h) tw st0 = Some st1"
    and r: "run tes st1 = Some st" and rk: "run_keeps k tes st1"
    and age: "t - t0 < l"
  shows "cache st k = Some \<lparr>data = v, timestamp = t0, ttl = Some l\<rparr>
         \<and> fetchAndBroadcastOptimized s cfg' t st =
             broadcast (LiveData (val_of s) v True (Some (t - t0)) t) st
         \<and> (map_of (activeStreams st) s = None \<and> js_lookup apiMethods k \<noteq> Missing \<longrightarrow>
              (\<exists>st'. startStream s ws t st = Some st'
                \<and> outbox st' =
                    outbox st @ map (\<lambda>w. (w, LiveData (val_of s) v True (Some (t - t0)) t))
                                  (recipients st)
                      @ [(ws, StreamStarted (val_of s)
                                (interval (spread (js_lookup apiMethods k))))]
                \<and> requestQueue st' = requestQueue st
                \<and> calls st' = calls st))"
proof -
  let ?e = "\<lparr>data = v, timestamp = t0, ttl = Some l\<rparr>"
  let ?st0' = "st0\<lparr>lastRequestTime := tw, requestCount := requestCount st0 + 1\<rparr>"
  have "st1 = (fetch_done s cfg t0 response tw ?st0')\<lparr>worker := Pausing (tw + 200)\<rparr>"
    using wr w k h by (simp add: call_done_def)
  moreover have "cache (fetch_done s cfg t0 response tw ?st0') k = Some ?e"
    using fetch_done_writes [of response v ?st0' cfg p s k old t0 tw] v tv p key old l by simp
  ultimately have "cache st1 k = Some ?e" by simp
  with cache_run_keeps [OF r rk] have c: "cache st k = Some ?e" by simp
  have f: "fresh ?e t" using tv age by (simp add: fresh_def)
  from c fetch_cache_hit [OF key c f, of cfg'] outbox_startStream_hit [OF key c f, of ws]
  show ?thesis by simp
qed

theorem cache_round_trip_witness:
  "handle (CallReturns (Reply reply5)) 103000 (calling\<lparr>clock := 103000\<rparr>) = Some written
   \<and> run [(103100, Message 1 (stop_stream (JStr ''dynamic_global_properties'')))] written
       = Some stopped
   \<and> map_of (activeStreams stopped) (str ''dynamic_global_properties'') = None
   \<and> (\<exists>st'. startStream (str ''dynamic_global_properties'') 1 103200 stopped = Some st'
       \<and> outbox st' =
           outbox stopped @
             [(1, LiveData (JStr ''dynamic_global_properties'')
                    (JObj [(''head_block_number'', JNum 5)]) True (Some 3180) 103200),
              (1, StreamStarted (JStr ''dynamic_global_properties'') (Some 8000))]
       \<and> requestQueue st' = requestQueue stopped)"
proof -
  let ?k = "''dynamic_global_properties''"
  let ?s = "str ''dynamic_global_properties''"
  let ?v = "JObj [(''head_block_number'', JNum 5)]"
  let ?old = "\<lparr>data = JNull, timestamp = 0, ttl = Some 5000\<rparr>"
  let ?c = "calling\<lparr>clock := 103000\<rparr>"
  let ?stop = "[(103100, Message 1 (stop_stream (JStr ''dynamic_global_properties'')))]"
  have w: "worker ?c = Calling out_request 101000" by (simp add: calling_def)
  have k: "r_cont out_request = KFetch ?s 0 100020" by (simp add: out_request_def)
  have key: "key_of ?s = Some ?k" by (simp add: key_of_def)
  have h: "makeAPICall (Reply reply5) = Resolved reply5" by (simp add: reply5_def)
  have v: "js_prop reply5 ''result'' = Some ?v" by (simp add: reply5_def)
  have tv: "truthy ?v" by simp
  have p: "processor (configs ?c 0) = Some ProcessDynamicGlobalProperties"
    by (simp add: calling_def js_lookup_def apiMethods_def)
  have old: "cache ?c ?k = Some ?old" by (simp add: calling_def init_def)
  have l: "ttl ?old = Some 5000" by simp
  have wr: "handle (CallReturns (Reply reply5)) 103000 ?c = Some written"
    using w h by (simp add: written_def)
  have ck: "clock written = 103000"
    by (simp add: written_def call_done_def out_request_def fetch_done_def reply5_def
        calling_def js_lookup_def apiMethods_def cache_write_def init_def track_request_def
        broadcast_eq key_of_def)
  have r: "run ?stop written = Some stopped"
    using ck by (simp add: step_def stopped_def)
  have rk: "run_keeps ?k ?stop written"
    using ck by (simp add: step_def)
  have age: "(103200 :: int) - 100020 < 5000" by simp
  have st: "stopped = (written\<lparr>clock := 103100\<rparr>)
              \<lparr>nextObject := nextObject written + 1, timers := (timers written)(0 := None),
               activeStreams := [],
               outbox := outbox written @
                 [(1, StreamStopped (JStr ''dynamic_global_properties'') 1)]\<rparr>"
    by (simp add: stopped_def written_def call_done_def out_request_def fetch_done_def reply5_def
        calling_def js_lookup_def apiMethods_def cache_write_def init_def track_request_def
        broadcast_eq key_of_def on_message_def handleClientMessage_def stop_stream_def
        name_of_def stopStream_def send_def clearInterval_def)
  have ina: "map_of (activeStreams stopped) ?s = None" by (simp add: st)
  have kn: "js_lookup apiMethods ?k \<noteq> Missing" by (simp add: js_lookup_def apiMethods_def)
  have rc: "recipients stopped = [1]"
    by (simp add: st recipients_def)
       (simp add: written_def call_done_def out_request_def fetch_done_def reply5_def
        calling_def js_lookup_def apiMethods_def cache_write_def init_def track_request_def
        broadcast_eq key_of_def)
  have iv: "interval (spread (js_lookup apiMethods ?k)) = Some 8000"
    by (simp add: js_lookup_def apiMethods_def)
  from cache_round_trip [OF w k key h v tv p old l wr r rk age, of 0 1] ina kn rc iv
  have "\<exists>st'. startStream ?s 1 103200 stopped = Some st'
       \<and> outbox st' =
           outbox stopped @
             [(1, LiveData (JStr ''dynamic_global_properties'') ?v True (Some 3180) 103200),
              (1, StreamStarted (JStr ''dynamic_global_properties'') (Some 8000))]
       \<and> requestQueue st' = requestQueue stopped"
    by auto
  with wr r ina show ?thesis by blast
qed

text \<open>
  C8 as stated fails. In \<open>rejoin_trace\<close> the value is written at 103000; the client
  starts the stream again at 106000, within the 5 s of the entry's TTL after the write,
  and is not served the value: the entry, stamped 100020, counts as stale, a request is
  queued, and the client gets the acknowledgement only.
\<close>

theorem rejoin_after_write_counterexample:
  "map_option (\<lambda>st. (cache st ''dynamic_global_properties'',
                      length (requestQueue st),
                      map (\<lambda>(ws, m). msg_type m) (outbox st)))
     (run rejoin_trace (init 100000))
   = Some (Some \<lparr>data = JObj [(''head_block_number'', JNum 5)], timestamp = 100020,
                  ttl = Some 5000\<rparr>,
           1,
           [''welcome'', ''stream_started'', ''live_data'', ''stream_stopped'',
            ''stream_started''])"
  by (simp add: rejoin_trace_def slow_reply_trace_def eval_defs)

subsection \<open>Active streams are known streams\<close>

lemma active_send [simp]: "activeStreams (send ws m st) = activeStreams st"
  by (simp add: send_def)

lemma active_broadcast [simp]: "activeStreams (broadcast m st) = activeStreams st"
  by (simp add: broadcast_eq)

lemma active_queueAPICall [simp]: "activeStreams (queueAPICall m p k st) = activeStreams st"
  by (simp add: queueAPICall_def)

lemma active_fetch_call [simp]: "activeStreams (fetch_call s cfg now st) = activeStreams st"
  by (simp add: fetch_call_def Let_def)

lemma active_fetch_fresh [simp]: "activeStreams (fetch_fresh s cfg now st) = activeStreams st"
  by (simp add: fetch_fresh_def)

lemma active_fetchAndBroadcastOptimized [simp]:
  "activeStreams (fetchAndBroadcastOptimized s cfg now st) = activeStreams st"
  by (simp add: fetchAndBroadcastOptimized_def fetch_catch_def split: lookup.split option.split)

lemma active_fetch_seeded [simp]: "activeStreams (fetch_seeded s cfg now v t st) = activeStreams st"
  by (simp add: fetch_seeded_def fetch_catch_def split: option.split)

lemma active_test_done [simp]: "activeStreams (test_done r t st) = activeStreams st"
  by (simp add: test_done_def split: outcome.split option.split)

lemma active_auto_done [simp]: "activeStreams (auto_done r st) = activeStreams st"
  by (simp add: auto_done_def split: outcome.split option.split)

lemma names_track_request [simp]: "active_names (track_request s st) = active_names st"
  by (auto simp: track_request_def active_names_def update_conv' split: option.split)

lemma active_run_processor:
  "run_processor p r st = (d, st1) \<Longrightarrow> activeStreams st1 = activeStreams st"
  by (cases p) auto

lemma active_cache_write:
  "cache_write s d now st = Some st1 \<Longrightarrow> activeStreams st1 = activeStreams st"
  by (auto simp: cache_write_def split: lookup.splits option.splits)

lemma names_fetch_done [simp]:
  "active_names (fetch_done s cfg now v t st) = active_names st"
proof -
  have eq: "\<And>st1 st2. activeStreams st1 = activeStreams st2 \<Longrightarrow> active_names st1 = active_names st2"
    by (simp add: active_names_def)
  have b: "\<And>m st'. active_names (broadcast m st') = active_names st'"
    by (simp add: active_names_def)
  show ?thesis
    by (auto simp: fetch_done_def fetch_catch_def b
        split: option.split prod.split
        dest!: active_run_processor active_cache_write
        intro!: eq)
qed

lemma names_resume [simp]: "active_names (resume k r t st) = active_names st"
  by (cases k; cases r) (simp_all add: fetch_catch_def, simp_all add: active_names_def)

lemma names_start_known:
  "active_names (start_known s cfg ws now st) \<subseteq> active_names st \<union> {s}"
  by (auto simp: start_known_def Let_def active_names_def update_conv' split: if_splits)

lemma names_startStream:
  assumes "startStream s ws now st = Some st'"
  shows "active_names st' \<subseteq> active_names st \<union> known"
proof (cases "key_of s")
  case None
  with assms show ?thesis by (simp add: startStream_def)
next
  case (Some k)
  show ?thesis
  proof (cases "js_lookup apiMethods k = Missing")
    case True
    with Some assms show ?thesis by (auto simp: startStream_def active_names_def)
  next
    case False
    with Some have "s \<in> known" by (simp add: known_def)
    moreover from False Some assms
    have "st' = start_known s (spread (js_lookup apiMethods k)) ws now st"
      by (cases "js_lookup apiMethods k") (simp_all add: startStream_def)
    ultimately show ?thesis using names_start_known [of s _ ws now st] by auto
  qed
qed

lemma names_stopStream: "active_names (stopStream s ws st) \<subseteq> active_names st"
  by (auto simp: stopStream_def active_names_def clearInterval_def delete_conv'
      split: option.splits if_splits)

lemma names_on_close: "active_names (on_close ws st) \<subseteq> active_names st"
  by (simp add: on_close_eq Let_def active_names_def)

lemma names_handleClientMessage:
  assumes "handleClientMessage ws msg i now st = Some st'"
  shows "active_names st' \<subseteq> active_names st \<union> known"
  using assms
proof (cases rule: handleClientMessage_cases)
  case (start v)
  then show ?thesis using names_startStream by simp
next
  case (stop v)
  then show ?thesis using names_stopStream [of "name_of v i" ws st] by auto
next
  case block
  then show ?thesis by (simp add: getCurrentBlock_def active_names_def)
next
  case stats
  then show ?thesis by (simp add: getAPIStats_def active_names_def)
next
  case (other s)
  then show ?thesis by (simp add: active_names_def)
qed

lemma names_on_message:
  "active_names (on_message ws msg now st) \<subseteq> active_names st \<union> known"
proof -
  let ?st1 = "st\<lparr>nextObject := nextObject st + 1\<rparr>"
  have a: "active_names ?st1 = active_names st" by (simp add: active_names_def)
  show ?thesis
  proof (cases "handleClientMessage ws msg (nextObject st) now ?st1")
    case None
    then show ?thesis by (simp add: on_message_def active_names_def)
  next
    case (Some st2)
    with names_handleClientMessage [OF Some] a show ?thesis by (simp add: on_message_def)
  qed
qed

lemma names_handle:
  assumes h: "handle ev now st = Some st'"
  shows "active_names st' \<subseteq> active_names st \<union> known"
proof (cases ev)
  case (Connection ws)
  with h show ?thesis by (auto simp: on_connection_def active_names_def)
next
  case (Message ws m)
  with h have "st' = on_message ws m now st" by simp
  with names_on_message show ?thesis by simp
next
  case (Unparsable ws)
  with h show ?thesis by (auto simp: active_names_def)
next
  case (Close ws)
  with h show ?thesis using names_on_close by auto
next
  case (SocketError ws)
  with h show ?thesis by (auto simp: on_error_def active_names_def)
next
  case (Tick i)
  with h show ?thesis by (auto simp: active_names_def split: option.splits if_splits)
next
  case QueueTimer
  with h show ?thesis
    by (cases "worker st")
       (auto simp: processRequestQueue_def dispatch_def queue_loop_def Let_def active_names_def
          split: if_splits list.splits)
next
  case (CallReturns x)
  with h obtain req started where "st' = call_done req (makeAPICall x) now st"
    by (cases "worker st") auto
  moreover have "\<And>st1 w. active_names (st1\<lparr>worker := w\<rparr>) = active_names st1"
    by (simp add: active_names_def)
  moreover have "active_names (st\<lparr>lastRequestTime := now, requestCount := requestCount st + 1\<rparr>)
                   = active_names st"
    by (simp add: active_names_def)
  ultimately show ?thesis
    by (cases "makeAPICall x") (simp_all add: call_done_def)
next
  case ResetTimer
  with h show ?thesis by (auto simp: active_names_def split: if_splits)
next
  case TestTimer
  with h show ?thesis by (auto simp: active_names_def split: option.splits if_splits)
next
  case AutoTimer
  with h show ?thesis by (auto simp: active_names_def split: option.splits if_splits)
qed

lemma names_run:
  assumes "run tes st = Some st'"
  shows "active_names st' \<subseteq> active_names st \<union> known"
  using assms
proof (induction tes arbitrary: st)
  case Nil
  then show ?case by simp
next
  case (Cons te tes)
  obtain now ev where te: "te = (now, ev)" by (cases te)
  from Cons.prems obtain st1 where s1: "step te st = Some st1" and r: "run tes st1 = Some st'"
    by (auto split: option.splits)
  from s1 te have h: "handle ev now (st\<lparr>clock := now\<rparr>) = Some st1"
    by (simp add: step_def split: if_splits)
  have "active_names (st\<lparr>clock := now\<rparr>) = active_names st" by (simp add: active_names_def)
  with names_handle [OF h] Cons.IH [OF r] show ?case by blast
qed

text \<open>
  In every state the bridge can reach, \<open>startStream\<close> for a name that \<open>activeStreams\<close>
  has changes nothing but the outbox, which gains the \<open>stream_started\<close>
  acknowledgement with the catalogue's interval: no timer, no entry, no request. A
  name that is a string is found whenever a stream of that name is active.
\<close>

lemma active_known:
  assumes "run tes (init t0) = Some st"
  shows "active_names st \<subseteq> known"
proof -
  have "active_names (init t0) = {}" by (simp add: init_def active_names_def)
  with names_run [OF assms] show ?thesis by auto
qed

lemma startStream_active:
  assumes active: "map_of (activeStreams st) s = Some x" and known: "s \<in> known"
  shows "\<exists>k. key_of s = Some k \<and>
           startStream s ws now st =
             Some (st\<lparr>outbox := outbox st @
                    [(ws, StreamStarted (val_of s) (interval (spread (js_lookup apiMethods k))))]\<rparr>)"
proof -
  from known obtain k where k: "key_of s = Some k" and kn: "js_lookup apiMethods k \<noteq> Missing"
    by (auto simp: known_def)
  with active have "startStream s ws now st =
             Some (st\<lparr>outbox := outbox st @
                    [(ws, StreamStarted (val_of s) (interval (spread (js_lookup apiMethods k))))]\<rparr>)"
    by (cases "js_lookup apiMethods k")
       (simp_all add: startStream_def start_known_def Let_def send_def)
  with k show ?thesis by simp
qed

lemma start_active_string_idempotent:
  assumes reach: "run tes (init t0) = Some st"
    and active: "map_of (activeStreams st) (str s) = Some x"
  shows "handle (Message ws (start_stream (JStr s))) now st =
           Some (st\<lparr>nextObject := nextObject st + 1,
                    outbox := outbox st @
                      [(ws, StreamStarted (JStr s) (interval (spread (js_lookup apiMethods s))))]\<rparr>)"
proof -
  let ?st1 = "st\<lparr>nextObject := nextObject st + 1\<rparr>"
  have kn: "str s \<in> known"
    using active_known [OF reach] active by (auto simp: active_names_def)
  have a: "map_of (activeStreams ?st1) (str s) = Some x" using active by simp
  from startStream_active [OF a kn, of ws now]
  show ?thesis
    by (simp add: on_message_def handleClientMessage_def start_stream_def name_of_def key_of_def)
qed

text \<open>
  C10, at a name that is no string. \<open>this.apiMethods[["block"]]\<close> is the catalogue
  entry of \<open>block\<close>, because a property key is turned into a string; but
  \<open>activeStreams\<close> is a \<open>Map\<close>, which finds an array only by identity, and each
  message is parsed into a new array. With the block stream active, each
  \<open>start_stream\<close> for \<open>["block"]\<close> makes one more timer, one more entry in
  \<open>activeStreams\<close> and one more request.
\<close>

theorem array_name_started_again:
  "map_option (\<lambda>st. (map fst (activeStreams st),
                      map (\<lambda>i. map_option t_delay (timers st i)) [0, 1, 2, 3],
                      map r_method (requestQueue st),
                      map (\<lambda>(ws, m). msg_type m) (outbox st)))
     (run array_name_trace (init 100000))
   = Some ([str ''block'', Ref 1 (JArr [JStr ''block'']), Ref 2 (JArr [JStr ''block''])],
           [Some 12000, Some 12000, Some 12000, None],
           [Some ''condenser_api.get_dynamic_global_properties'',
            Some ''condenser_api.get_block'', Some ''condenser_api.get_block''],
           [''welcome'', ''stream_started'', ''stream_started'', ''stream_started''])"
  by (simp add: array_name_trace_def eval_defs)

subsection \<open>The spacing of upstream calls\<close>

lemma qview_send [simp]: "qview (send ws m st) = qview st"
  by (simp add: send_def qview_def)

lemma qview_broadcast [simp]: "qview (broadcast m st) = qview st"
  by (simp add: broadcast_eq qview_def)

lemma qview_queueAPICall [simp]: "qview (queueAPICall m p k st) = qview st"
  by (simp add: queueAPICall_def qview_def)

lemma qview_fetch_call [simp]: "qview (fetch_call s cfg now st) = qview st"
  by (simp add: fetch_call_def Let_def) (simp add: qview_def)

lemma qview_fetch_fresh [simp]: "qview (fetch_fresh s cfg now st) = qview st"
  by (simp add: fetch_fresh_def)

lemma qview_fetchAndBroadcastOptimized [simp]:
  "qview (fetchAndBroadcastOptimized s cfg now st) = qview st"
  by (simp add: fetchAndBroadcastOptimized_def fetch_catch_def split: lookup.split option.split)

lemma qview_start_known [simp]: "qview (start_known s cfg ws now st) = qview st"
  by (simp add: start_known_def Let_def) (simp add: qview_def)

lemma qview_startStream: "startStream s ws now st = Some st' \<Longrightarrow> qview st' = qview st"
  by (auto simp: startStream_def split: option.splits lookup.splits)

lemma qview_stopStream [simp]: "qview (stopStream s ws st) = qview st"
  by (simp add: stopStream_def clearInterval_def split: option.split) (simp add: qview_def)

lemma qview_on_close [simp]: "qview (on_close ws st) = qview st"
  by (simp add: on_close_eq Let_def qview_def)

lemma qview_handleClientMessage:
  assumes "handleClientMessage ws msg i now st = Some st'"
  shows "qview st' = qview st"
  using assms
  by (cases rule: handleClientMessage_cases)
     (simp_all add: getCurrentBlock_def getAPIStats_def qview_startStream)

lemma qview_on_message [simp]: "qview (on_message ws msg now st) = qview st"
proof -
  let ?st1 = "st\<lparr>nextObject := nextObject st + 1\<rparr>"
  have a: "qview ?st1 = qview st" by (simp add: qview_def)
  show ?thesis
  proof (cases "handleClientMessage ws msg (nextObject st) now ?st1")
    case None
    then show ?thesis using a by (simp add: on_message_def)
  next
    case (Some st2)
    with qview_handleClientMessage [OF Some] a show ?thesis by (simp add: on_message_def)
  qed
qed

lemma qview_fetch_seeded [simp]: "qview (fetch_seeded s cfg now v t st) = qview st"
  by (simp add: fetch_seeded_def fetch_catch_def split: option.split) (simp add: qview_def)

lemma qview_test_done [simp]: "qview (test_done r t st) = qview st"
  by (simp add: test_done_def qview_def split: outcome.split option.split)

lemma qview_auto_done [simp]: "qview (auto_done r st) = qview st"
  by (simp add: auto_done_def qview_def split: outcome.split option.split)

lemma qview_run_processor: "run_processor p r st = (d, st1) \<Longrightarrow> qview st1 = qview st"
  by (cases p) (auto simp: qview_def)

lemma qview_cache_write: "cache_write s d now st = Some st1 \<Longrightarrow> qview st1 = qview st"
  by (auto simp: cache_write_def qview_def split: lookup.splits option.splits)

lemma qview_track_request [simp]: "qview (track_request s st) = qview st"
  by (simp add: track_request_def qview_def split: option.split)

lemma qview_fetch_done [simp]: "qview (fetch_done s cfg now v t st) = qview st"
  by (auto simp: fetch_done_def fetch_catch_def
      split: option.split prod.split dest!: qview_run_processor qview_cache_write)

lemma qview_resume [simp]: "qview (resume k r t st) = qview st"
  by (cases k; cases r) (simp_all add: fetch_catch_def)

lemma spaced_qview:
  assumes "spaced st" and "qview st' = qview st"
  shows "spaced st'"
  using assms unfolding spaced_def qview_def by simp

lemma spaced_clock:
  assumes "spaced st" and "clock st \<le> now"
  shows "spaced (st\<lparr>clock := now\<rparr>)"
  using assms unfolding spaced_def by (auto; force)

lemma spaced_dispatch:
  assumes sp: "spaced st" and nc: "\<And>r s. worker st \<noteq> Calling r s"
    and late: "lastRequestTime st + requestDelay \<le> now" and ck: "now \<le> clock st"
  shows "spaced (dispatch req now st)"
proof -
  have old: "\<forall>t \<in> set (map fst (calls st)). t \<le> lastRequestTime st"
    using sp nc unfolding spaced_def by blast
  have "sorted_wrt (\<lambda>a b. a + requestDelay \<le> b) (map fst (calls st) @ [now])"
    using sp old late unfolding spaced_def by (auto simp: sorted_wrt_append)
  then show ?thesis
    using old sp ck unfolding spaced_def by (auto simp: dispatch_def)
qed

lemma spaced_queue_loop:
  assumes sp: "spaced st" and nc: "\<And>r s. worker st \<noteq> Calling r s" and ck: "clock st = now"
  shows "spaced (queue_loop now st)"
proof -
  have old: "\<forall>t \<in> set (map fst (calls st)). t \<le> lastRequestTime st"
    using sp nc unfolding spaced_def by blast
  show ?thesis
  proof (cases "requestQueue st")
    case Nil
    with sp old show ?thesis
      unfolding spaced_def by (simp add: queue_loop_def)
  next
    case (Cons req rest)
    let ?st1 = "st\<lparr>requestQueue := rest\<rparr>"
    have sp1: "spaced ?st1" using sp unfolding spaced_def by simp
    show ?thesis
    proof (cases "now - lastRequestTime st < requestDelay")
      case True
      with Cons have "queue_loop now st =
          st\<lparr>requestQueue := rest,
             worker := Sleeping req (now + (requestDelay - (now - lastRequestTime st)))\<rparr>"
        by (simp add: queue_loop_def Let_def)
      with sp old show ?thesis unfolding spaced_def by simp
    next
      case False
      with Cons have eq: "queue_loop now st = dispatch req now ?st1"
        by (simp add: queue_loop_def Let_def)
      show ?thesis
        unfolding eq
        by (rule spaced_dispatch [OF sp1]) (use False ck nc in simp_all)
    qed
  qed
qed

lemma spaced_call_done:
  assumes sp: "spaced st" and w: "worker st = Calling req started" and ck: "clock st = now"
  shows "spaced (call_done req (Resolved v) now st)"
proof -
  let ?st1 = "st\<lparr>lastRequestTime := now, requestCount := requestCount st + 1\<rparr>"
  let ?st2 = "resume (r_cont req) (Resolved v) now ?st1"
  have q: "qview ?st2 = qview ?st1" by simp
  have "\<forall>t \<in> set (map fst (calls st)). t \<le> now"
    using sp w ck unfolding spaced_def by fastforce
  with sp have "spaced (?st1\<lparr>worker := Pausing (now + 200)\<rparr>)"
    using ck unfolding spaced_def by simp
  moreover have "qview (?st2\<lparr>worker := Pausing (now + 200)\<rparr>)
                   = qview (?st1\<lparr>worker := Pausing (now + 200)\<rparr>)"
    using q by (simp add: qview_def)
  ultimately show ?thesis
    using spaced_qview by (simp add: call_done_def)
qed

lemma spaced_handle:
  assumes sp: "spaced st" and ck: "clock st = now"
    and h: "handle ev now st = Some st'"
    and ok: "succeeds ev"
  shows "spaced st'"
proof -
  have keep: "\<And>s. qview s = qview st \<Longrightarrow> spaced s"
    using spaced_qview [OF sp] by simp
  show ?thesis
  proof (cases ev)
    case (Connection ws)
    with h show ?thesis by (auto intro!: keep simp: on_connection_def qview_def send_def)
  next
    case (Message ws m)
    with h show ?thesis by (auto intro!: keep)
  next
    case (Unparsable ws)
    with h show ?thesis by (auto intro!: keep)
  next
    case (Close ws)
    with h show ?thesis by (auto intro!: keep)
  next
    case (SocketError ws)
    with h show ?thesis by (auto intro!: keep simp: on_error_def qview_def)
  next
    case (Tick i)
    with h obtain tm where "st' = fetchAndBroadcastOptimized (t_stream tm) i now
                       (st\<lparr>timers := (timers st)(i \<mapsto> tm\<lparr>t_due := now + t_delay tm\<rparr>)\<rparr>)"
      by (auto split: option.splits if_splits)
    then show ?thesis by (auto intro!: keep simp: qview_def [of "st\<lparr>timers := _\<rparr>"] qview_def [of st])
  next
    case QueueTimer
    show ?thesis
    proof (cases "worker st")
      case (Polling due)
      with h QueueTimer have st': "st' = processRequestQueue now st"
        by (auto split: if_splits)
      show ?thesis
      proof (cases "isProcessingQueue st \<or> requestQueue st = []")
        case True
        with st' have "st' = st\<lparr>worker := Polling (now + 1000)\<rparr>"
          by (simp add: processRequestQueue_def)
        with sp Polling show ?thesis unfolding spaced_def by simp
      next
        case False
        let ?st1 = "st\<lparr>isProcessingQueue := True\<rparr>"
        have "spaced ?st1" using sp unfolding spaced_def by simp
        from spaced_queue_loop [OF this, of now] Polling ck False st'
        show ?thesis by (simp add: processRequestQueue_def)
      qed
    next
      case (Sleeping req due)
      with h QueueTimer have st': "st' = dispatch req now st" and due: "due \<le> now"
        by (auto split: if_splits)
      have "lastRequestTime st + requestDelay \<le> now"
        using sp Sleeping due unfolding spaced_def by fastforce
      from spaced_dispatch [OF sp _ this, of req] Sleeping ck st' show ?thesis by simp
    next
      case (Calling req started)
      with h QueueTimer show ?thesis by simp
    next
      case (Pausing due)
      with h QueueTimer have st': "st' = queue_loop now st"
        by (auto split: if_splits)
      from spaced_queue_loop [OF sp _ ck] Pausing st' show ?thesis by simp
    qed
  next
    case (CallReturns x)
    with h obtain req started where w: "worker st = Calling req started"
      and st': "st' = call_done req (makeAPICall x) now st"
      by (cases "worker st") auto
    from ok CallReturns obtain v where "makeAPICall x = Resolved v"
      by (cases "makeAPICall x") auto
    with spaced_call_done [OF sp w ck] st' show ?thesis by simp
  next
    case ResetTimer
    with h show ?thesis by (auto intro!: keep simp: qview_def split: if_splits)
  next
    case TestTimer
    with h show ?thesis
      by (auto intro!: keep simp: qview_def queueAPICall_def split: option.splits if_splits)
  next
    case AutoTimer
    with h show ?thesis
      by (auto intro!: keep simp: qview_def queueAPICall_def split: option.splits if_splits)
  qed
qed

lemma spaced_run:
  assumes "run tes st = Some st'" and "spaced st" and "\<forall>te \<in> set tes. succeeds (snd te)"
  shows "spaced st'"
  using assms
proof (induction tes arbitrary: st)
  case Nil
  then show ?case by simp
next
  case (Cons te tes)
  obtain now ev where te: "te = (now, ev)" by (cases te)
  from Cons.prems(1) obtain st1 where s1: "step te st = Some st1" and r: "run tes st1 = Some st'"
    by (auto split: option.splits)
  from s1 te have ck: "clock st \<le> now" and h: "handle ev now (st\<lparr>clock := now\<rparr>) = Some st1"
    by (simp_all add: step_def split: if_splits)
  have "spaced (st\<lparr>clock := now\<rparr>)" using spaced_clock [OF Cons.prems(2) ck] .
  from spaced_handle [OF this _ h] Cons.prems(3) te have "spaced st1" by simp
  from Cons.IH [OF r this] Cons.prems(3) show ?case by simp
qed

lemma spaced_init: "0 \<le> t0 \<Longrightarrow> spaced (init t0)"
  by (simp add: spaced_def init_def)

lemma spaced_count:
  fixes ts :: "int list"
  assumes "sorted_wrt (\<lambda>a b. a + d \<le> b) ts" and "0 < d"
    and "\<forall>t \<in> set ts. lo \<le> t \<and> t < lo + int n * d"
  shows "length ts \<le> n"
  using assms
proof (induction ts arbitrary: lo n)
  case Nil
  then show ?case by simp
next
  case (Cons x xs)
  from Cons.prems have x: "lo \<le> x" "x < lo + int n * d" by simp_all
  with \<open>0 < d\<close> have "0 < int n * d" by linarith
  with \<open>0 < d\<close> have n: "0 < n" by (cases n) simp_all
  have "\<forall>t \<in> set xs. lo + d \<le> t \<and> t < (lo + d) + int (n - 1) * d"
  proof
    fix t assume t: "t \<in> set xs"
    with Cons.prems(1) have "x + d \<le> t" by simp
    moreover from Cons.prems(3) t have "t < lo + int n * d" by simp
    moreover have "int n * d = d + int (n - 1) * d"
      using n by (simp add: algebra_simps of_nat_diff)
    ultimately show "lo + d \<le> t \<and> t < (lo + d) + int (n - 1) * d"
      using x by linarith
  qed
  moreover from Cons.prems(1) have "sorted_wrt (\<lambda>a b. a + d \<le> b) xs" by simp
  ultimately have "length xs \<le> n - 1"
    using Cons.IH [of "lo + d" "n - 1"] \<open>0 < d\<close> by blast
  with n show ?case by simp
qed

lemma length_filter_calls:
  "length (filter (\<lambda>(t, m, p). P t) cs) = length (filter P (map fst cs))"
  by (induction cs) auto

lemma queue_ignores_requestCount:
  "handle QueueTimer now (st\<lparr>requestCount := c\<rparr>)
     = map_option (\<lambda>s. s\<lparr>requestCount := c\<rparr>) (handle QueueTimer now st)"
proof (cases "worker st")
  case (Polling due)
  then show ?thesis
    by (cases "requestQueue st")
       (simp_all add: processRequestQueue_def queue_loop_def Let_def dispatch_def)
next
  case (Sleeping req due)
  then show ?thesis by (simp add: dispatch_def)
next
  case (Calling req started)
  then show ?thesis by simp
next
  case (Pausing due)
  then show ?thesis
    by (cases "requestQueue st") (simp_all add: queue_loop_def Let_def dispatch_def)
qed

text \<open>
  In a run in which every call resolves, any 60 seconds (from \<open>lo\<close> up to, not
  including, \<open>lo + 60000\<close>) hold at most \<open>maxRequestsPerMinute\<close> calls sent upstream,
  because consecutive calls are at least \<open>requestDelay\<close> apart. The spacing is the
  only gate: what the queue's timer does is the same whatever \<open>requestCount\<close> holds.
  And the loop sends nothing while a call is out.
\<close>

lemma resolved_calls_bounded:
  assumes reach: "run tes (init t0) = Some st" and t0: "0 \<le> t0"
    and ok: "\<forall>te \<in> set tes. succeeds (snd te)"
  shows "calls_between lo (lo + 60000) st \<le> maxRequestsPerMinute
         \<and> sorted_wrt (\<lambda>a b. a + requestDelay \<le> b) (map fst (calls st))
         \<and> handle QueueTimer now (st\<lparr>requestCount := c\<rparr>)
             = map_option (\<lambda>s. s\<lparr>requestCount := c\<rparr>) (handle QueueTimer now st)
         \<and> (\<forall>req started. worker st = Calling req started \<longrightarrow>
               handle QueueTimer now st = None)"
proof -
  have sp: "spaced st" using spaced_run [OF reach spaced_init [OF t0] ok] .
  let ?ts = "filter (\<lambda>t. lo \<le> t \<and> t < lo + 60000) (map fst (calls st))"
  have s: "sorted_wrt (\<lambda>a b. a + 1000 \<le> b) ?ts"
    using sp unfolding spaced_def requestDelay_def by (simp add: sorted_wrt_filter)
  have b: "\<forall>t \<in> set ?ts. lo \<le> t \<and> t < lo + int 60 * 1000"
    by simp
  have "length ?ts \<le> 60"
    by (rule spaced_count [OF s _ b]) simp
  moreover have "calls_between lo (lo + 60000) st = length ?ts"
    unfolding calls_between_def by (rule length_filter_calls)
  ultimately have "calls_between lo (lo + 60000) st \<le> maxRequestsPerMinute"
    by (simp add: maxRequestsPerMinute_def)
  moreover have "sorted_wrt (\<lambda>a b. a + requestDelay \<le> b) (map fst (calls st))"
    using sp unfolding spaced_def by blast
  moreover have "\<forall>req started. worker st = Calling req started \<longrightarrow>
                   handle QueueTimer now st = None"
    by simp
  ultimately show ?thesis using queue_ignores_requestCount by blast
qed

subsection \<open>Calls against a failing upstream\<close>

lemma run_append:
  "run (xs @ ys) st = (case run xs st of None \<Rightarrow> None | Some st' \<Rightarrow> run ys st')"
  by (induction xs arbitrary: st) (auto split: option.splits)

lemma fetch_stale_plain:
  assumes "key_of s = Some k" and "cache st k = Some e" and "\<not> fresh e now"
    and "s \<noteq> str ''block_header''" and "s \<noteq> str ''block''"
  shows "fetchAndBroadcastOptimized s cfg now st =
           queueAPICall (method (configs st cfg)) (params (configs st cfg)) (KFetch s cfg now) st"
  using assms
  by (simp add: fetchAndBroadcastOptimized_def js_lookup_def fetch_fresh_def fetch_call_def)

lemma flood_pair:
  assumes f: "flooded n st"
  shows "\<exists>st'. run [(100020 + 2 * int n,
                     Message 1 (start_stream (JStr ''dynamic_global_properties''))),
                    (100021 + 2 * int n,
                     Message 1 (stop_stream (JStr ''dynamic_global_properties'')))] st
                = Some st' \<and> flooded (Suc n) st'"
proof -
  let ?k = "''dynamic_global_properties''"
  let ?s = "str ''dynamic_global_properties''"
  let ?t = "100020 + 2 * int n"
  let ?st0 = "st\<lparr>clock := ?t\<rparr>"
  let ?st1 = "on_message 1 (start_stream (JStr ?k)) ?t ?st0"
  let ?st2 = "on_message 1 (stop_stream (JStr ?k)) (?t + 1) (?st1\<lparr>clock := ?t + 1\<rparr>)"
  from f have ck: "clock st \<le> ?t" and ina: "map_of (activeStreams st) ?s = None"
    and ca: "cache st ?k = Some \<lparr>data = JNull, timestamp = 0, ttl = Some 5000\<rparr>"
    and w: "worker st = Polling 101000" and np: "\<not> isProcessingQueue st"
    and l: "lastRequestTime st = 0" and c: "calls st = []"
    and len: "length (requestQueue st) = n"
    and ks: "\<forall>r \<in> set (requestQueue st). cont_stream (r_cont r) \<noteq> None"
    by (simp_all add: flooded_def)
  have lk: "js_lookup apiMethods ?k = Own \<lparr>method = Some ''condenser_api.get_dynamic_global_properties'',
         params = Some [], interval = Some 8000, processor = Some ProcessDynamicGlobalProperties\<rparr>"
    by (simp add: js_lookup_def apiMethods_def)
  have key: "key_of ?s = Some ?k" by (simp add: key_of_def)
  have s1: "?st1 = st\<lparr>clock := ?t, nextObject := Suc (nextObject st),
        nextTimer := Suc (nextTimer st),
        configs := (configs st)(nextTimer st := spread (js_lookup apiMethods ?k)),
        timers := (timers st)(nextTimer st \<mapsto> \<lparr>t_stream = ?s, t_delay = 8000, t_due = ?t + 8000\<rparr>),
        activeStreams := AList.update ?s
           \<lparr>intervalId = nextTimer st, config = nextTimer st, startTime = ?t,
            streamRequestCount = 0\<rparr> (activeStreams st),
        requestQueue := requestQueue st @
           [\<lparr>r_method = Some ''condenser_api.get_dynamic_global_properties'', r_params = Some [],
             r_cont = KFetch ?s (nextTimer st) ?t\<rparr>],
        outbox := outbox st @ [(1, StreamStarted (JStr ?k) (Some 8000))]\<rparr>"
    using ina ca
    by (simp add: on_message_def handleClientMessage_def start_stream_def name_of_def
        startStream_def start_known_def key lk Let_def timer_delay_def
        fetch_stale_plain [OF key] fresh_def queueAPICall_def send_def)
  have act: "map_of (activeStreams ?st1) ?s =
      Some \<lparr>intervalId = nextTimer st, config = nextTimer st, startTime = ?t,
            streamRequestCount = 0\<rparr>"
    by (subst s1) (simp add: update_conv')
  have no: "nextObject ?st1 = Suc (nextObject st)" by (subst s1) simp
  have s2: "?st2 = send 1 (StreamStopped (JStr ?k) 0)
      ((clearInterval (nextTimer st) (?st1\<lparr>clock := ?t + 1, nextObject := Suc (Suc (nextObject st))\<rparr>))
         \<lparr>activeStreams := AList.delete ?s (activeStreams ?st1)\<rparr>)"
    using act no
    by (simp add: on_message_def handleClientMessage_def stop_stream_def name_of_def
        stopStream_def)
  have r: "run [(?t, Message 1 (start_stream (JStr ?k))),
                (100021 + 2 * int n, Message 1 (stop_stream (JStr ?k)))] st
             = Some ?st2"
  proof -
    have ck1: "clock ?st1 = ?t" by (subst s1) simp
    have a: "step (?t, Message 1 (start_stream (JStr ?k))) st = Some ?st1"
      using ck by (simp add: step_def)
    have b: "step (100021 + 2 * int n, Message 1 (stop_stream (JStr ?k))) ?st1 = Some ?st2"
      using ck1 by (simp add: step_def add.commute)
    show ?thesis using a b by simp
  qed
  have p: "worker ?st1 = worker st" "isProcessingQueue ?st1 = isProcessingQueue st"
      "lastRequestTime ?st1 = lastRequestTime st" "calls ?st1 = calls st"
      "cache ?st1 = cache st"
      "requestQueue ?st1 = requestQueue st @
           [\<lparr>r_method = Some ''condenser_api.get_dynamic_global_properties'', r_params = Some [],
             r_cont = KFetch ?s (nextTimer st) ?t\<rparr>]"
    by (subst s1, simp)+
  have "flooded (Suc n) ?st2"
    unfolding s2 flooded_def
    using ca w np l c len ks p
    by (simp add: send_def clearInterval_def delete_conv')
  with r show ?thesis by blast
qed

lemma flood_run:
  assumes "flooded 0 st"
  shows "\<exists>st'. run (flood n) st = Some st' \<and> flooded n st'"
proof (induction n)
  case 0
  with assms show ?case by (simp add: flood_def)
next
  case (Suc n)
  then obtain st1 where r1: "run (flood n) st = Some st1" and f1: "flooded n st1" by blast
  from flood_pair [OF f1] obtain st2 where
    r2: "run [(100020 + 2 * int n, Message 1 (start_stream (JStr ''dynamic_global_properties''))),
              (100021 + 2 * int n, Message 1 (stop_stream (JStr ''dynamic_global_properties'')))] st1
           = Some st2" and f2: "flooded (Suc n) st2" by blast
  have "flood (Suc n) = flood n @
          [(100020 + 2 * int n, Message 1 (start_stream (JStr ''dynamic_global_properties''))),
           (100021 + 2 * int n, Message 1 (stop_stream (JStr ''dynamic_global_properties'')))]"
    by (simp add: flood_def)
  with r1 r2 f2 show ?case by (simp add: run_append)
qed

lemma drain_round:
  assumes d: "drained n j st" and j: "j < n"
  shows "\<exists>st'. run [(101000 + 250 * int j, QueueTimer),
                    (101050 + 250 * int j, CallReturns (ConnectionError ''ECONNREFUSED''))] st
                = Some st' \<and> drained n (Suc j) st'"
proof -
  let ?t = "101000 + 250 * int j"
  let ?t' = "101050 + 250 * int j"
  let ?e = "TransportError ''ECONNREFUSED''"
  let ?st0 = "st\<lparr>clock := ?t\<rparr>"
  from d have ck: "clock st \<le> ?t"
    and w: "worker st = (if j = 0 then Polling 101000 else Pausing ?t)"
    and np: "j = 0 \<longrightarrow> \<not> isProcessingQueue st"
    and l: "lastRequestTime st = 0"
    and c: "map fst (calls st) = map (\<lambda>k. 101000 + 250 * int k) [0..<j]"
    and len: "length (requestQueue st) + j = n"
    and ks: "\<forall>r \<in> set (requestQueue st). cont_stream (r_cont r) \<noteq> None"
    by (simp_all add: drained_def)
  from len j obtain req rest where q: "requestQueue st = req # rest"
    by (cases "requestQueue st") auto
  from ks q obtain s where k: "cont_stream (r_cont req) = Some s" by auto
  let ?st1 = "queue_loop ?t (if j = 0 then ?st0\<lparr>isProcessingQueue := True\<rparr> else ?st0)"
  have ql: "?st1 = dispatch req ?t
              ((if j = 0 then ?st0\<lparr>isProcessingQueue := True\<rparr> else ?st0)\<lparr>requestQueue := rest\<rparr>)"
    using q l by (simp add: queue_loop_def Let_def requestDelay_def)
  have p1: "clock ?st1 = ?t" "worker ?st1 = Calling req ?t" "lastRequestTime ?st1 = 0"
      "calls ?st1 = calls st @ [(?t, r_method req, r_params req)]" "requestQueue ?st1 = rest"
    using l by (subst ql, simp add: dispatch_def)+
  have h1: "handle QueueTimer ?t ?st0 = Some ?st1"
    using w np q by (simp add: processRequestQueue_def)
  have s1: "step (?t, QueueTimer) st = Some ?st1"
    using ck h1 by (simp add: step_def)
  let ?st1c = "?st1\<lparr>clock := ?t'\<rparr>"
  let ?st2 = "(broadcast (FetchError (val_of s) ?e ?t') ?st1c)\<lparr>worker := Pausing (?t' + 200)\<rparr>"
  have h2: "handle (CallReturns (ConnectionError ''ECONNREFUSED'')) ?t' ?st1c = Some ?st2"
    using p1(2) by (simp add: call_done_def resume_rejected [OF k])
  have s2: "step (?t', CallReturns (ConnectionError ''ECONNREFUSED'')) ?st1 = Some ?st2"
    using p1(1) h2 by (simp add: step_def)
  have p2: "clock ?st2 = ?t'" "worker ?st2 = Pausing (?t' + 200)" "lastRequestTime ?st2 = 0"
      "calls ?st2 = calls st @ [(?t, r_method req, r_params req)]" "requestQueue ?st2 = rest"
    using p1 by (simp_all add: broadcast_eq)
  have "drained n (Suc j) ?st2"
    unfolding drained_def using p2 c len ks q by simp
  moreover have "run [(?t, QueueTimer), (?t', CallReturns (ConnectionError ''ECONNREFUSED''))] st
                   = Some ?st2"
    using s1 s2 by simp
  ultimately show ?thesis by blast
qed

lemma drain_run:
  assumes "drained n 0 st" and "j \<le> n"
  shows "\<exists>st'. run (drain j) st = Some st' \<and> drained n j st'"
  using assms(2)
proof (induction j)
  case 0
  with assms(1) show ?case by (simp add: drain_def)
next
  case (Suc j)
  then obtain st1 where r1: "run (drain j) st = Some st1" and d1: "drained n j st1" by auto
  from Suc.prems have "j < n" by simp
  from drain_round [OF d1 this] obtain st2 where
    r2: "run [(101000 + 250 * int j, QueueTimer),
              (101050 + 250 * int j, CallReturns (ConnectionError ''ECONNREFUSED''))] st1
           = Some st2" and d2: "drained n (Suc j) st2" by blast
  have "drain (Suc j) = drain j @
          [(101000 + 250 * int j, QueueTimer),
           (101050 + 250 * int j, CallReturns (ConnectionError ''ECONNREFUSED''))]"
    by (simp add: drain_def)
  with r1 r2 d2 show ?case by (simp add: run_append)
qed

lemma flooded_drained: "flooded n st \<Longrightarrow> n \<le> 490 \<Longrightarrow> drained n 0 st"
  by (simp add: flooded_def drained_def)

lemma burst_run: "\<exists>st. run burst_trace (init 100000) = Some st \<and> drained 61 61 st"
proof -
  let ?st0 = "on_connection 1 100010 ((init 100000)\<lparr>clock := 100010\<rparr>)"
  have r0: "run [(100010, Connection 1)] (init 100000) = Some ?st0"
    by (simp add: step_def init_def)
  have "flooded 0 ?st0"
    by (simp add: flooded_def on_connection_def send_def init_def)
  from flood_run [OF this, of 61] obtain st1 where
    r1: "run (flood 61) ?st0 = Some st1" and f1: "flooded 61 st1" by blast
  from drain_run [OF flooded_drained [OF f1], of 61] obtain st2 where
    r2: "run (drain 61) st1 = Some st2" and d2: "drained 61 61 st2" by auto
  have "burst_trace = [(100010, Connection 1)] @ flood 61 @ drain 61"
    by (simp add: burst_trace_def)
  moreover have "run (flood 61 @ drain 61) ?st0 = Some st2"
    unfolding run_append r1 option.case by (rule r2)
  then have "run ([(100010, Connection 1)] @ flood 61 @ drain 61) (init 100000) = Some st2"
    unfolding run_append [of "[(100010, Connection 1)]"] r0 option.case .
  ultimately have "run burst_trace (init 100000) = Some st2"
    by (simp only:)
  with d2 show ?thesis by blast
qed

text \<open>
  C2, on a run against an upstream that refuses connections. Only a call that resolves
  sets \<open>lastRequestTime\<close>, so after a rejected call the next one waits for the 200 ms
  pause alone. In \<open>burst_trace\<close> the bridge sends 61 calls upstream between 101000
  and 116000, 250 ms apart, all in one window of 60 seconds; \<open>lastRequestTime\<close> is
  still its initial 0 at the end.
\<close>

theorem burst_exceeds_ceiling:
  "map_option (\<lambda>st. (calls_between 101000 161000 st, map fst (calls st), lastRequestTime st))
     (run burst_trace (init 100000))
   = Some (61, map (\<lambda>k. 101000 + 250 * int k) [0..<61], 0)"
proof -
  from burst_run obtain st where r: "run burst_trace (init 100000) = Some st"
    and d: "drained 61 61 st" by blast
  let ?ts = "map (\<lambda>k. 101000 + 250 * int k) [0..<61]"
  from d have c: "map fst (calls st) = ?ts" and l: "lastRequestTime st = 0"
    by (simp_all add: drained_def)
  have "\<forall>t \<in> set ?ts. 101000 \<le> t \<and> t < 161000" by auto
  then have "filter (\<lambda>t. 101000 \<le> t \<and> t < 161000) ?ts = ?ts"
    by (simp only: filter_True)
  then have "length (filter (\<lambda>t. 101000 \<le> t \<and> t < 161000) (map fst (calls st))) = 61"
    using c by simp
  then have "calls_between 101000 161000 st = 61"
    unfolding calls_between_def by (simp only: length_filter_calls)
  with r c l show ?thesis by simp
qed

subsection \<open>When a stream is deactivated\<close>

lemma timers_send [simp]: "timers (send ws m st) = timers st"
  by (simp add: send_def)

lemma timers_broadcast [simp]: "timers (broadcast m st) = timers st"
  by (simp add: broadcast_eq)

lemma reg_send [simp]: "reg (send ws m st) = reg st"
  by (simp add: send_def reg_def ids_def)

lemma reg_broadcast [simp]: "reg (broadcast m st) = reg st"
  by (simp add: broadcast_eq reg_def ids_def)

lemma reg_queueAPICall [simp]: "reg (queueAPICall m p k st) = reg st"
  by (simp add: queueAPICall_def reg_def ids_def)

lemma reg_fetch_call [simp]: "reg (fetch_call s cfg now st) = reg st"
  by (simp add: fetch_call_def Let_def) (simp add: reg_def ids_def)

lemma reg_fetch_fresh [simp]: "reg (fetch_fresh s cfg now st) = reg st"
  by (simp add: fetch_fresh_def)

lemma reg_fetchAndBroadcastOptimized [simp]:
  "reg (fetchAndBroadcastOptimized s cfg now st) = reg st"
  by (simp add: fetchAndBroadcastOptimized_def fetch_catch_def split: lookup.split option.split)

lemma reg_fetch_seeded [simp]: "reg (fetch_seeded s cfg now v t st) = reg st"
  by (simp add: fetch_seeded_def fetch_catch_def split: option.split) (simp add: reg_def ids_def)

lemma reg_test_done [simp]: "reg (test_done r t st) = reg st"
  by (simp add: test_done_def reg_def ids_def split: outcome.split option.split)

lemma reg_auto_done [simp]: "reg (auto_done r st) = reg st"
  by (simp add: auto_done_def reg_def ids_def split: outcome.split option.split)

lemma reg_run_processor: "run_processor p r st = (d, st1) \<Longrightarrow> reg st1 = reg st"
  by (cases p) (auto simp: reg_def ids_def)

lemma reg_cache_write: "cache_write s d now st = Some st1 \<Longrightarrow> reg st1 = reg st"
  by (auto simp: cache_write_def reg_def ids_def split: lookup.splits option.splits)

lemma reg_track_request [simp]: "reg (track_request s st) = reg st"
proof -
  have "ids (track_request s st) = ids st"
    by (rule ext) (simp add: track_request_def ids_def update_conv' split: option.split)
  then show ?thesis by (simp add: reg_def track_request_def split: option.split)
qed

lemma reg_fetch_done [simp]: "reg (fetch_done s cfg now v t st) = reg st"
  by (auto simp: fetch_done_def fetch_catch_def
      split: option.split prod.split dest!: reg_run_processor reg_cache_write)

lemma reg_resume [simp]: "reg (resume k r t st) = reg st"
  by (cases k; cases r) (simp_all add: fetch_catch_def)

lemma reg_call_done [simp]: "reg (call_done req r now st) = reg st"
proof -
  have a: "\<And>s w. reg (s\<lparr>worker := w\<rparr>) = reg s" by (simp add: reg_def ids_def)
  have b: "\<And>c. reg (st\<lparr>lastRequestTime := now, requestCount := c\<rparr>) = reg st"
    by (simp add: reg_def ids_def)
  show ?thesis by (cases r) (simp_all add: call_done_def a b)
qed





lemma ids_empty: "activeStreams st = [] \<Longrightarrow> ids st = Map.empty"
  by (rule ext) (simp add: ids_def)
















end
